theory Spec2Isabelle
  imports Complex_Main "HOL-Library.Monad_Syntax" "HOL-Library.Multiset"
begin

section \<open>Exceptions\<close>

text \<open>
  The Python exceptions that the modelled functions can raise. A function that can raise
  returns \<open>py_error + 'a\<close> (\<open>Inl\<close> the exception); the functions whose only exception is
  an out-of-range index return \<open>'a option\<close>, \<open>None\<close> standing for the raised IndexError.
\<close>

datatype py_error =
    IndexError
  | StopIteration
  | ValueError string
  | ImportException string
  | ConfigError
  | ZeroDivisionError
  | OverflowError
  | NotImplementedError

section \<open>tsp/abc.py: BaseSolution, comparison by cost\<close>

text \<open>
  A class of solutions: its name, the names of the classes it inherits from (its method
  resolution order), and its own \<open>__hash__\<close>, a function of the encoding, if it defines
  one. \<open>BaseSolution\<close> defines \<open>__eq__\<close>, \<open>__lt__\<close> and \<open>__hash__\<close> (lines 88-104); the
  concrete classes are taken to leave \<open>__eq__\<close> and \<open>__lt__\<close> as they inherit them.
\<close>

record 'e py_class =
  cls_name :: string
  cls_bases :: "string list"
  cls_hash :: "('e \<Rightarrow> int) option"

text \<open>
  A solution object: its class, its encoding, and the value its \<open>cost()\<close> returns. Costs
  are Python floats; they are modelled by an ordered type \<open>'c\<close> (exact arithmetic).
\<close>

record ('e, 'c) solution =
  sol_class :: "'e py_class"
  sol_encoding :: 'e
  sol_cost :: 'c

definition isinstance :: "('e, 'c) solution \<Rightarrow> 'e py_class \<Rightarrow> bool" where
  "isinstance x c = (cls_name c \<in> set (cls_name (sol_class x) # cls_bases (sol_class x)))"

text \<open>\<open>__eq__\<close> and \<open>__lt__\<close> (lines 94-104); \<open>None\<close> is the value \<open>NotImplemented\<close>.\<close>

definition solution_eq :: "('e, 'c) solution \<Rightarrow> ('e, 'c) solution \<Rightarrow> bool option" where
  "solution_eq self other =
     (if isinstance other (sol_class self) then Some (sol_cost self = sol_cost other) else None)"

definition solution_lt :: "('e, 'c::ord) solution \<Rightarrow> ('e, 'c) solution \<Rightarrow> bool option" where
  "solution_lt self other =
     (if isinstance other (sol_class self) then Some (sol_cost self < sol_cost other) else None)"

text \<open>
  \<open>hash(self)\<close>: the \<open>__hash__\<close> of the class if it defines one, otherwise the one of
  \<open>BaseSolution\<close> (lines 88-89), which raises NotImplementedError.
\<close>

definition solution_hash :: "('e, 'c) solution \<Rightarrow> py_error + int" where
  "solution_hash self =
     (case cls_hash (sol_class self) of
        None \<Rightarrow> Inl NotImplementedError
      | Some h \<Rightarrow> Inr (h (sol_encoding self)))"

text \<open>
  The operator \<open>a == b\<close>: \<open>a.__eq__(b)\<close>, then \<open>b.__eq__(a)\<close> if the answer is
  \<open>NotImplemented\<close>, then the identity of the two objects, which are distinct when neither
  is an instance of the class of the other.
\<close>

definition solution_equals :: "('e, 'c) solution \<Rightarrow> ('e, 'c) solution \<Rightarrow> bool" where
  "solution_equals a b =
     (case solution_eq a b of
        Some r \<Rightarrow> r
      | None \<Rightarrow> (case solution_eq b a of Some r \<Rightarrow> r | None \<Rightarrow> False))"

text \<open>
  Python's built-in \<open>set\<close>, as the list of its entries, each with the hash it was stored
  under. \<open>s.add(x)\<close> computes \<open>hash(x)\<close>, which may raise, and leaves the set as it is
  when an entry has that hash and is equal to \<open>x\<close> (the comparison is \<open>entry == x\<close>, tried
  only on entries of the same hash); otherwise \<open>x\<close> becomes a new entry. \<open>len(s)\<close> is the
  number of entries.
\<close>

definition hash_set_find :: "('a \<Rightarrow> 'a \<Rightarrow> bool) \<Rightarrow> (int \<times> 'a) list \<Rightarrow> int \<Rightarrow> 'a \<Rightarrow> bool" where
  "hash_set_find equals s h x = list_ex (\<lambda>(stored, entry). stored = h \<and> equals entry x) s"

definition hash_set_add ::
  "('a \<Rightarrow> py_error + int) \<Rightarrow> ('a \<Rightarrow> 'a \<Rightarrow> bool) \<Rightarrow> (int \<times> 'a) list \<Rightarrow> 'a \<Rightarrow>
   py_error + (int \<times> 'a) list" where
  "hash_set_add hash equals s x =
     (case hash x of
        Inl e \<Rightarrow> Inl e
      | Inr h \<Rightarrow> Inr (if hash_set_find equals s h x then s else s @ [(h, x)]))"

text \<open>The set that \<open>s = set(); s.add(a); s.add(b)\<close> builds from two solutions.\<close>

definition solution_pair_set ::
  "('e, 'c) solution \<Rightarrow> ('e, 'c) solution \<Rightarrow> py_error + (int \<times> ('e, 'c) solution) list" where
  "solution_pair_set a b =
     (case hash_set_add solution_hash solution_equals [] a of
        Inl e \<Rightarrow> Inl e
      | Inr s \<Rightarrow> hash_set_add solution_hash solution_equals s b)"

section \<open>tsp/neighborhoods: the tabu memory of a neighborhood class\<close>

text \<open>
  The class-level pair \<open>_tabu_list\<close> (a deque, created without a bound of its own) and
  \<open>_tabu_set\<close>, both empty when the class is created.
\<close>

record 'm tabu =
  tabu_list :: "'m list"
  tabu_set :: "'m set"

definition tabu_empty :: "'m tabu" where
  "tabu_empty = \<lparr>tabu_list = [], tabu_set = {}\<rparr>"

text \<open>
  Modelled from the spec: \<open>add_to_tabu\<close> of BasePathNeighborhood (tsp/neighborhoods/base.py
  is not among the source files). Insertion appends to the sequence and adds to the set;
  insertion beyond the fixed capacity evicts the oldest entry from both views.
\<close>

definition add_to_tabu :: "nat \<Rightarrow> 'm \<Rightarrow> 'm tabu \<Rightarrow> 'm tabu" where
  "add_to_tabu maxlen target t =
     (let l = tabu_list t @ [target];
          s = insert target (tabu_set t)
      in if maxlen < length l
         then \<lparr>tabu_list = tl l, tabu_set = s - {hd l}\<rparr>
         else \<lparr>tabu_list = l, tabu_set = s\<rparr>)"

text \<open>Membership query of the tabu memory (the set view answers it).\<close>

definition is_tabu :: "'m \<Rightarrow> 'm tabu \<Rightarrow> bool" where
  "is_tabu target t = (target \<in> tabu_set t)"

text \<open>\<open>Swap._maxlen\<close>\<close>

definition Swap_maxlen :: nat where
  "Swap_maxlen = 100"

section \<open>tsp/neighborhoods/swap.py: Swap\<close>

text \<open>
  Python list reads and writes by index; \<open>None\<close> is the IndexError of an index beyond the
  end (node numbers are naturals, so no index is negative).
\<close>

definition py_get :: "'a list \<Rightarrow> nat \<Rightarrow> 'a option" where
  "py_get xs i = (if i < length xs then Some (xs ! i) else None)"

definition py_set :: "'a list \<Rightarrow> nat \<Rightarrow> 'a \<Rightarrow> 'a list option" where
  "py_set xs i v = (if i < length xs then Some (xs[i := v]) else None)"

text \<open>\<open>solution.distances[i][j]\<close>: the class-level distance table, a parameter here.\<close>

definition dist :: "'c list list \<Rightarrow> nat \<Rightarrow> nat \<Rightarrow> 'c option" where
  "dist distances i j = do { row \<leftarrow> py_get distances i; py_get row j }"

text \<open>
  A path solution as \<open>Swap.swap\<close> reads and builds it: the successor and predecessor of
  every node (\<open>after\<close>, \<open>before\<close>) and the value of \<open>cost()\<close>. The class PathSolution itself
  is not among the source files.
\<close>

record 'c path_solution =
  ps_after :: "nat list"
  ps_before :: "nat list"
  ps_cost :: 'c

type_synonym move = "nat \<times> nat \<times> nat \<times> nat"

text \<open>\<open>Swap.swap\<close> (lines 36-82).\<close>

definition swap :: "'c::ab_group_add list list \<Rightarrow> 'c path_solution \<Rightarrow> move \<Rightarrow> 'c path_solution option" where
  "swap distances solution m =
     (case m of (first_head0, first_tail0, second_head0, second_tail0) \<Rightarrow> do {
        let before = ps_before solution;
        let after = ps_after solution;
        a \<leftarrow> py_get after second_tail0;
        let (first_head, first_tail, second_head, second_tail) =
              (if first_head0 = a
               then (second_head0, second_tail0, first_head0, first_tail0)
               else (first_head0, first_tail0, second_head0, second_tail0));
        b \<leftarrow> py_get before second_head;
        if first_tail = b then do {
          before_first \<leftarrow> py_get before first_head;
          after_second \<leftarrow> py_get after second_tail;
          d1 \<leftarrow> dist distances before_first second_head;
          d2 \<leftarrow> dist distances second_tail first_head;
          d3 \<leftarrow> dist distances first_tail after_second;
          d4 \<leftarrow> dist distances before_first first_head;
          d5 \<leftarrow> dist distances first_tail second_head;
          d6 \<leftarrow> dist distances second_tail after_second;
          let cost = ps_cost solution + d1 + d2 + d3 - d4 - d5 - d6;
          after \<leftarrow> py_set after before_first second_head;
          before \<leftarrow> py_set before second_head before_first;
          after \<leftarrow> py_set after second_tail first_head;
          before \<leftarrow> py_set before first_head second_tail;
          after \<leftarrow> py_set after first_tail after_second;
          before \<leftarrow> py_set before after_second first_tail;
          Some \<lparr>ps_after = after, ps_before = before, ps_cost = cost\<rparr>
        } else do {
          before_first \<leftarrow> py_get before first_head;
          before_second \<leftarrow> py_get before second_head;
          after_first \<leftarrow> py_get after first_tail;
          after_second \<leftarrow> py_get after second_tail;
          d1 \<leftarrow> dist distances before_first second_head;
          d2 \<leftarrow> dist distances second_tail after_first;
          d3 \<leftarrow> dist distances before_second first_head;
          d4 \<leftarrow> dist distances first_tail after_second;
          d5 \<leftarrow> dist distances before_first first_head;
          d6 \<leftarrow> dist distances first_tail after_first;
          d7 \<leftarrow> dist distances before_second second_head;
          d8 \<leftarrow> dist distances second_tail after_second;
          let cost = ps_cost solution + d1 + d2 + d3 + d4 - d5 - d6 - d7 - d8;
          after \<leftarrow> py_set after before_first second_head;
          before \<leftarrow> py_set before second_head before_first;
          after \<leftarrow> py_set after before_second first_head;
          before \<leftarrow> py_set before first_head before_second;
          after \<leftarrow> py_set after second_tail after_first;
          before \<leftarrow> py_set before after_first second_tail;
          after \<leftarrow> py_set after first_tail after_second;
          before \<leftarrow> py_set before after_second first_tail;
          Some \<lparr>ps_after = after, ps_before = before, ps_cost = cost\<rparr>
        }
      })"

text \<open>
  Modelled from the spec: the cost by full recomputation from an encoding (\<open>cost()\<close> of
  PathSolution is not among the source files): the sum, over every node, of the distance
  from the node to its successor in the \<open>after\<close> linkage.
\<close>

definition recomputed_cost :: "'c::ab_group_add list list \<Rightarrow> nat list \<Rightarrow> 'c" where
  "recomputed_cost distances after =
     (\<Sum>i\<leftarrow>[0..<length after]. distances ! i ! (after ! i))"

text \<open>
  The loop of \<open>static_find_best_candidate\<close> (lines 127-135) over the moves of one bundle,
  for any evaluation \<open>ev\<close> of a move (\<open>neighborhood.swap\<close>) and the cost that \<open>__lt__\<close>
  compares; \<open>result\<close> and \<open>min_swap\<close> are set together, so they are one optional pair.
  An exception raised by the evaluation ends the loop (\<open>None\<close>).
\<close>

fun static_loop ::
  "('m \<Rightarrow> 's option) \<Rightarrow> ('s \<Rightarrow> 'c::ord) \<Rightarrow> 'm list \<Rightarrow> ('s \<times> 'm) option \<Rightarrow> ('s \<times> 'm) option option" where
  "static_loop ev cost [] acc = Some acc"
| "static_loop ev cost (m # ms) acc =
     (case ev m of
        None \<Rightarrow> None
      | Some swapped \<Rightarrow>
          static_loop ev cost ms
            (case acc of
               None \<Rightarrow> Some (swapped, m)
             | Some (result, min_swap) \<Rightarrow>
                 if cost swapped < cost result then Some (swapped, m) else Some (result, min_swap)))"

definition static_find_best_candidate ::
  "'c::{ab_group_add, ord} list list \<Rightarrow> 'c path_solution \<Rightarrow> move list \<Rightarrow> ('c path_solution \<times> move) option option" where
  "static_find_best_candidate distances solution data =
     static_loop (swap distances solution) ps_cost data None"

text \<open>\<open>os.cpu_count() or 1\<close>: \<open>None\<close> and 0 are false in Python.\<close>

definition concurrency_of :: "nat option \<Rightarrow> nat" where
  "concurrency_of cpu_count = (case cpu_count of None \<Rightarrow> 1 | Some n \<Rightarrow> if n = 0 then 1 else n)"

text \<open>
  The move descriptors in the order lines 91-104 produce them. \<open>solution.path\<close> is the
  tuple of the nodes in tour order and \<open>solution.dimension\<close> their number (PathSolution
  is not among the source files); \<open>range n\<close> is \<open>[0..n - 1]\<close>, empty when \<open>n \<le> 0\<close>, and
  \<open>mod\<close> on integers is Python's \<open>%\<close>.
\<close>

definition swap_moves :: "nat list \<Rightarrow> int \<Rightarrow> int \<Rightarrow> move list" where
  "swap_moves path first_length second_length =
     (let dimension = int (length path) in
      concat (map (\<lambda>first_head_index.
        let first_tail_index = (first_head_index + first_length - 1) mod dimension in
        map (\<lambda>d.
          let second_head_index = (first_tail_index + d + 1) mod dimension;
              second_tail_index = (second_head_index + second_length - 1) mod dimension
          in (path ! nat first_head_index, path ! nat first_tail_index,
              path ! nat second_head_index, path ! nat second_tail_index))
          [0..dimension - first_length - second_length + 1 - 1])
        [0..dimension - 1]))"

text \<open>
  Lines 88-89 and 105: \<open>concurrency\<close> empty bundles, filled by \<open>itertools.cycle\<close> over their
  indices. The second component is the index the cycle gives next.
\<close>

definition distribute_step :: "nat \<Rightarrow> 'm list list \<times> nat \<Rightarrow> 'm \<Rightarrow> 'm list list \<times> nat" where
  "distribute_step concurrency st arg =
     (case st of (args, k) \<Rightarrow> (args[k := args ! k @ [arg]], (k + 1) mod concurrency))"

definition distribute :: "nat \<Rightarrow> 'm list \<Rightarrow> 'm list list" where
  "distribute concurrency moves =
     fst (foldl (distribute_step concurrency) (replicate concurrency [], 0) moves)"

text \<open>
  Lines 107-115: the reduction of the per-bundle results, in the order of the bundles
  (\<open>pool.map\<close> returns its results in the order of its arguments, whenever each was
  finished).
\<close>

fun reduce_results :: "('s \<Rightarrow> 'c::ord) \<Rightarrow> ('s \<times> 'm) option list \<Rightarrow> ('s \<times> 'm) option \<Rightarrow> ('s \<times> 'm) option" where
  "reduce_results cost [] acc = acc"
| "reduce_results cost (None # rs) acc = reduce_results cost rs acc"
| "reduce_results cost (Some (result_temp, min_swap_temp) # rs) acc =
     reduce_results cost rs
       (case acc of
          None \<Rightarrow> Some (result_temp, min_swap_temp)
        | Some (result, min_swap) \<Rightarrow>
            if cost result_temp < cost result then Some (result_temp, min_swap_temp)
            else Some (result, min_swap))"

text \<open>
  \<open>Swap.find_best_candidate\<close> (lines 84-120): the returned optional solution and the tabu
  memory after the call; \<open>Inl\<close> when a worker raised.
\<close>

definition find_best_candidate ::
  "nat option \<Rightarrow> 'c::{ab_group_add, ord} list list \<Rightarrow> 'c path_solution \<Rightarrow> nat list \<Rightarrow> int \<Rightarrow> int \<Rightarrow>
   move tabu \<Rightarrow> py_error + ('c path_solution option \<times> move tabu)" where
  "find_best_candidate cpu_count distances solution path first_length second_length memory =
     (let concurrency = concurrency_of cpu_count;
          args = distribute concurrency (swap_moves path first_length second_length)
      in case those (map (static_find_best_candidate distances solution) args) of
           None \<Rightarrow> Inl IndexError
         | Some results \<Rightarrow>
             (case reduce_results ps_cost results None of
                None \<Rightarrow> Inr (None, memory)
              | Some (result, min_swap) \<Rightarrow> Inr (Some result, add_to_tabu Swap_maxlen min_swap memory)))"

text \<open>
  The reference of the specification for the reduction: every enumerated move is
  evaluated in order, and the first one of minimal cost is kept.
\<close>

definition sequential_best :: "('m \<Rightarrow> 's) \<Rightarrow> ('s \<Rightarrow> 'c::linorder) \<Rightarrow> 'm list \<Rightarrow> ('s \<times> 'm) option" where
  "sequential_best ev cost moves =
     (if moves = [] then None
      else find (\<lambda>(s, m). cost s = Min (set (map (cost \<circ> ev) moves))) (map (\<lambda>m. (ev m, m)) moves))"

text \<open>
  What it means for an optional pair \<open>r\<close> of a solution and its move to be a minimum by
  cost of the evaluation \<open>f\<close> over the moves \<open>M\<close>: no pair exactly when there is no
  move.
\<close>

definition is_min_of :: "('m \<Rightarrow> 's) \<Rightarrow> ('s \<Rightarrow> 'c::linorder) \<Rightarrow> 'm set \<Rightarrow> ('s \<times> 'm) option \<Rightarrow> bool" where
  "is_min_of f cost M r =
     (case r of None \<Rightarrow> M = {}
      | Some (s, m) \<Rightarrow> m \<in> M \<and> s = f m \<and> (\<forall>m' \<in> M. cost s \<le> cost (f m')))"

section \<open>tsp/abc.py: BaseSolution.tabu_search\<close>

text \<open>
  What a concrete solution class supplies to the driver: the cost that \<open>__lt__\<close>
  compares, \<open>initial()\<close>, \<open>get_neighborhoods()\<close>, \<open>shuffle()\<close> and \<open>post_optimization()\<close>.
  A neighborhood is its \<open>find_best_candidate\<close>: from the class-level memory \<open>'t\<close> (the tabu
  lists) to the optional candidate and the memory afterwards, or an exception. The random
  choices of \<open>shuffle\<close> are abstracted into the function.
\<close>

record ('s, 'c, 't) problem =
  p_cost :: "'s \<Rightarrow> 'c"
  p_initial :: 's
  p_get_neighborhoods :: "'s \<Rightarrow> ('t \<Rightarrow> py_error + ('s option \<times> 't)) list"
  p_shuffle :: "'s \<Rightarrow> 's"
  p_post_optimization :: "'s \<Rightarrow> 's"

text \<open>The variables of the loop, and the class-level memory of the neighborhoods.\<close>

record ('s, 't) ts_state =
  ts_result :: 's
  ts_current :: 's
  ts_last_improved :: int
  ts_memory :: 't

text \<open>Python's \<open>min(a, b)\<close>: \<open>b\<close> only when \<open>b < a\<close>.\<close>

definition py_min :: "('s \<Rightarrow> 'c::ord) \<Rightarrow> 's \<Rightarrow> 's \<Rightarrow> 's" where
  "py_min cost a b = (if cost b < cost a then b else a)"

text \<open>Lines 77-81: the candidate is adopted when it is better, then \<open>result\<close> is updated.\<close>

definition ts_update :: "('s, 'c::ord, 't) problem \<Rightarrow> int \<Rightarrow> 's \<Rightarrow> ('s, 't) ts_state \<Rightarrow> ('s, 't) ts_state" where
  "ts_update P iteration best_candidate st =
     (let improved = p_cost P best_candidate < p_cost P (ts_current st);
          current = (if improved then best_candidate else ts_current st);
          last_improved = (if improved then iteration else ts_last_improved st)
      in st\<lparr>ts_result := py_min (p_cost P) (ts_result st) current,
             ts_current := current,
             ts_last_improved := last_improved\<rparr>)"

text \<open>Lines 83-84.\<close>

definition ts_shuffle :: "('s, 'c, 't) problem \<Rightarrow> int \<Rightarrow> int \<Rightarrow> ('s, 't) ts_state \<Rightarrow> ('s, 't) ts_state" where
  "ts_shuffle P shuffle_after iteration st =
     (if shuffle_after \<le> iteration - ts_last_improved st
      then st\<lparr>ts_current := p_shuffle P (ts_current st)\<rparr>
      else st)"

text \<open>
  The loop of lines 70-84 over the remaining iteration numbers. \<open>k\<close> is the length of the
  cycle of line 69 (the number of neighborhoods of the initial solution); the iteration
  numbers are consecutive from 0 and the cycle advances once per iteration, so the cycle
  gives \<open>iteration mod k\<close>, and \<open>next\<close> on an empty cycle raises StopIteration. Besides the
  outcome the function returns, for every completed iteration, the state after line 81
  and the state at the end of the iteration.
\<close>

fun ts_run ::
  "('s, 'c::ord, 't) problem \<Rightarrow> int \<Rightarrow> nat \<Rightarrow> nat list \<Rightarrow> ('s, 't) ts_state \<Rightarrow>
   (py_error + ('s, 't) ts_state) \<times> (('s, 't) ts_state \<times> ('s, 't) ts_state) list" where
  "ts_run P shuffle_after k [] st = (Inr st, [])"
| "ts_run P shuffle_after k (iteration # rest) st =
     (if k = 0 then (Inl StopIteration, [])
      else
        let neighborhoods = p_get_neighborhoods P (ts_current st);
            index = iteration mod k
        in if length neighborhoods \<le> index then (Inl IndexError, [])
           else
             (case (neighborhoods ! index) (ts_memory st) of
                Inl e \<Rightarrow> (Inl e, [])
              | Inr (None, memory) \<Rightarrow> (Inr (st\<lparr>ts_memory := memory\<rparr>), [])
              | Inr (Some best_candidate, memory) \<Rightarrow>
                  (let updated = ts_update P (int iteration) best_candidate (st\<lparr>ts_memory := memory\<rparr>);
                       ended = ts_shuffle P shuffle_after (int iteration) updated;
                       (outcome, trace) = ts_run P shuffle_after k rest ended
                   in (outcome, (updated, ended) # trace))))"

text \<open>The state in which \<open>tabu_search\<close> enters the loop (lines 62 and 68).\<close>

definition ts_init :: "('s, 'c, 't) problem \<Rightarrow> 't \<Rightarrow> ('s, 't) ts_state" where
  "ts_init P memory =
     \<lparr>ts_result = p_initial P, ts_current = p_initial P, ts_last_improved = 0, ts_memory = memory\<rparr>"

text \<open>\<open>BaseSolution.tabu_search\<close> (lines 61-86), from the class-level memory at the call.\<close>

definition tabu_search :: "('s, 'c::ord, 't) problem \<Rightarrow> nat \<Rightarrow> int \<Rightarrow> 't \<Rightarrow> py_error + 's" where
  "tabu_search P iterations_count shuffle_after memory =
     (case fst (ts_run P shuffle_after (length (p_get_neighborhoods P (p_initial P)))
                  [0..<iterations_count] (ts_init P memory)) of
        Inl e \<Rightarrow> Inl e
      | Inr st \<Rightarrow> Inr (p_post_optimization P (ts_result st)))"

section \<open>ts/abc/multi\_ob/solutions.py: MultiObjectiveSolution.tabu\_search\<close>

text \<open>\<open>_accept_all\<close>, the default propagation predicate.\<close>

definition accept_all :: "'s \<Rightarrow> 's set \<Rightarrow> bool" where
  "accept_all candidate results = True"

text \<open>The argument \<open>max_propagation\<close>: \<open>None\<close>, an integer, or a function of the front.\<close>

datatype 's max_propagation = Unbounded | Fixed int | Computed "'s set \<Rightarrow> int"

text \<open>
  What the solution class and the random generator supply. The members of the sets are
  the solutions as a Python set tells them apart. \<open>mo_candidates iteration current\<close> is the
  sequence of candidates that lines 97-99 draw in that iteration, in the order they are
  drawn (the order of the iteration over \<open>current\<close>, the neighborhood chosen at random for
  each member and the result of its \<open>find_best_candidates\<close>); \<open>mo_add_to_pareto_set\<close> returns
  the answer of \<open>candidate.add_to_pareto_set(results)\<close> and the set it leaves; \<open>mo_sample\<close> is
  the members that \<open>random.sample\<close> picks for removal.
\<close>

record ('s, 'c) mo_problem =
  mo_cost :: "'s \<Rightarrow> 'c list"
  mo_initial :: 's
  mo_candidates :: "nat \<Rightarrow> 's set \<Rightarrow> 's list"
  mo_add_to_pareto_set :: "'s \<Rightarrow> 's set \<Rightarrow> bool \<times> 's set"
  mo_sample :: "'s set \<Rightarrow> nat \<Rightarrow> 's set"
  mo_shuffle :: "'s \<Rightarrow> 's"
  mo_post_optimization :: "'s \<Rightarrow> 's"

record 's mo_state =
  mo_results :: "'s set"
  mo_current :: "'s set"
  mo_last_improved :: int

text \<open>
  Lines 96-104 over the candidates of the iteration: the staged candidates
  (\<open>propagate\<close>) and the front afterwards.
\<close>

fun mo_stage ::
  "('s \<Rightarrow> 's set \<Rightarrow> bool \<times> 's set) \<Rightarrow> ('s \<Rightarrow> 's set \<Rightarrow> bool) \<Rightarrow> 's list \<Rightarrow> 's set \<Rightarrow> 's list \<times> 's set" where
  "mo_stage add propagation_predicate [] results = ([], results)"
| "mo_stage add propagation_predicate (candidate # rest) results =
     (let (added, results1) = add candidate results;
          staged = (added \<or> propagation_predicate candidate results1);
          (propagate, results2) = mo_stage add propagation_predicate rest results1
      in (if staged then candidate # propagate else propagate, results2))"

text \<open>
  Lines 110-115. \<open>random.sample\<close> raises ValueError when asked for more members than there
  are.
\<close>

definition mo_trim ::
  "('s, 'c) mo_problem \<Rightarrow> 's max_propagation \<Rightarrow> 's set \<Rightarrow> 's set \<Rightarrow> py_error + 's set" where
  "mo_trim P max_propagation results current =
     (case max_propagation of
        Unbounded \<Rightarrow> Inr current
      | _ \<Rightarrow>
          (let max_propagation_value =
                 (case max_propagation of Fixed v \<Rightarrow> v | Computed f \<Rightarrow> f results | Unbounded \<Rightarrow> 0);
               remove_count = int (card current) - max_propagation_value
           in if 0 < remove_count
              then (if int (card current) < remove_count
                    then Inl (ValueError ''Sample larger than population or is negative'')
                    else Inr (current - mo_sample P current (nat remove_count)))
              else Inr current))"

text \<open>One iteration of the loop, lines 96-118.\<close>

definition mo_iteration ::
  "('s, 'c) mo_problem \<Rightarrow> ('s \<Rightarrow> 's set \<Rightarrow> bool) \<Rightarrow> int \<Rightarrow> 's max_propagation \<Rightarrow>
   's mo_state \<Rightarrow> nat \<Rightarrow> py_error + 's mo_state" where
  "mo_iteration P propagation_predicate shuffle_after max_propagation st iteration =
     (let (propagate, results) =
            mo_stage (mo_add_to_pareto_set P) propagation_predicate
              (mo_candidates P iteration (mo_current st)) (mo_results st);
          current = mo_current st \<union> set propagate;
          last_improved = (if propagate = [] then mo_last_improved st else int iteration)
      in case mo_trim P max_propagation results current of
           Inl e \<Rightarrow> Inl e
         | Inr current \<Rightarrow>
             Inr \<lparr>mo_results = results,
                  mo_current = (if shuffle_after \<le> int iteration - last_improved
                                then mo_shuffle P ` current else current),
                  mo_last_improved = last_improved\<rparr>)"

fun mo_loop ::
  "('s, 'c) mo_problem \<Rightarrow> ('s \<Rightarrow> 's set \<Rightarrow> bool) \<Rightarrow> int \<Rightarrow> 's max_propagation \<Rightarrow>
   nat list \<Rightarrow> 's mo_state \<Rightarrow> py_error + 's mo_state" where
  "mo_loop P propagation_predicate shuffle_after max_propagation [] st = Inr st"
| "mo_loop P propagation_predicate shuffle_after max_propagation (iteration # rest) st =
     (case mo_iteration P propagation_predicate shuffle_after max_propagation st iteration of
        Inl e \<Rightarrow> Inl e
      | Inr st' \<Rightarrow> mo_loop P propagation_predicate shuffle_after max_propagation rest st')"

text \<open>
  \<open>MultiObjectiveSolution.tabu_search\<close> (lines 77-142). The costs collected for the plot
  and the plot itself are left out; the check of lines 86-88 stands where the code has it.
\<close>

definition mo_tabu_search ::
  "('s, 'c) mo_problem \<Rightarrow> nat \<Rightarrow> ('s \<Rightarrow> 's set \<Rightarrow> bool) \<Rightarrow> int \<Rightarrow> 's max_propagation \<Rightarrow> bool \<Rightarrow>
   py_error + 's set" where
  "mo_tabu_search P iterations_count propagation_predicate shuffle_after max_propagation plot_pareto_front =
     (let initial = mo_initial P;
          results = {initial};
          current = results
      in if length (mo_cost P initial) \<noteq> 2
         then Inl (ValueError ''Cannot plot the Pareto front when the number of objectives is not 2'')
         else
           (case mo_loop P propagation_predicate shuffle_after max_propagation [0..<iterations_count]
                   \<lparr>mo_results = results, mo_current = current, mo_last_improved = 0\<rparr> of
              Inl e \<Rightarrow> Inl e
            | Inr st \<Rightarrow> Inr (mo_post_optimization P ` mo_results st)))"

text \<open>
  Modelled from the spec: dominance and the admission of a candidate to a Pareto front
  (\<open>add_to_pareto_set\<close> of BaseMulticostComparison, ts/abc/multi\_ob/costs.py, is not among
  the source files). \<open>a\<close> dominates \<open>b\<close> iff it is at most \<open>b\<close> in every objective and
  smaller in at least one; a candidate dominated by a member is rejected, otherwise it is
  inserted and every member it dominates is removed.
\<close>

definition dominates :: "'c::linorder list \<Rightarrow> 'c list \<Rightarrow> bool" where
  "dominates a b =
     (list_all (\<lambda>(x, y). x \<le> y) (zip a b) \<and> list_ex (\<lambda>(x, y). x < y) (zip a b))"

definition add_to_pareto_set :: "('s \<Rightarrow> 'c::linorder list) \<Rightarrow> 's \<Rightarrow> 's set \<Rightarrow> bool \<times> 's set" where
  "add_to_pareto_set cost candidate front =
     (if \<exists>m \<in> front. dominates (cost m) (cost candidate) then (False, front)
      else (True, insert candidate (Set.filter (\<lambda>m. \<not> dominates (cost candidate) (cost m)) front)))"

section \<open>ts/d2d/solutions.py: D2DPathSolution.import\_problem\<close>

text \<open>\<open>DroneEnergyConsumptionMode\<close>; every mode but \<open>LINEAR\<close> selects the nonlinear configuration.\<close>

datatype drone_energy_consumption_mode = LINEAR | NON_LINEAR

text \<open>
  The class-level problem state of \<open>D2DPathSolution\<close>. The attributes that the class body
  only declares exist once \<open>import_problem\<close> has assigned them: \<open>None\<close> is the attribute
  that is not set (for \<open>problem\<close>, the value \<open>None\<close> of the class body).
\<close>

record d2d_class =
  d2d_config_imported :: bool
  d2d_problem :: "string option"
  d2d_customers_count :: "nat option"
  d2d_drones_count :: "nat option"
  d2d_technicians_count :: "nat option"
  d2d_drones_flight_duration :: "real option"
  d2d_x :: "real list option"
  d2d_y :: "real list option"
  d2d_demands :: "real list option"
  d2d_dronable :: "bool list option"
  d2d_technician_service_time :: "real list option"
  d2d_drone_service_time :: "real list option"
  d2d_energy_mode :: "drone_energy_consumption_mode option"

text \<open>
  What the library calls of \<open>import_problem\<close> return on the text of a problem file. A header
  is the number that \<open>int\<close> or \<open>float\<close> makes of the digits matched by \<open>re.search\<close>, \<open>None\<close>
  when the pattern matches nowhere (the code then calls \<open>.group\<close> on \<open>None\<close>). A row is one
  match of \<open>re.finditer\<close>: each numeric field is the value of \<open>float\<close> on its group,
  \<open>None\<close> when \<open>float\<close> raises ValueError, and \<open>row_technician_only\<close> is the fourth group.
\<close>

record problem_row =
  row_x :: "real option"
  row_y :: "real option"
  row_demand :: "real option"
  row_technician_only :: string
  row_technician_service_time :: "real option"
  row_drone_service_time :: "real option"

record problem_file =
  file_customers :: "nat option"
  file_number_drone :: "nat option"
  file_flight_time :: "nat option"
  file_rows :: "problem_row list"

text \<open>
  \<open>join("problems", "d2d", "random_data", f"{problem}.txt")\<close> on a POSIX system: a last
  component that starts with a slash replaces what precedes it.
\<close>

definition problem_path :: "string \<Rightarrow> string" where
  "problem_path problem =
     (if problem \<noteq> [] \<and> hd problem = CHR ''/'' then problem @ ''.txt''
      else ''problems/d2d/random_data/'' @ problem @ ''.txt'')"

text \<open>
  The loop of lines 392-399 over the rows: the six lists, each starting with the entry
  of the depot, or \<open>None\<close> when a \<open>float\<close> raises.
\<close>

fun read_rows ::
  "problem_row list \<Rightarrow> real list \<times> real list \<times> real list \<times> bool list \<times> real list \<times> real list \<Rightarrow>
   (real list \<times> real list \<times> real list \<times> bool list \<times> real list \<times> real list) option" where
  "read_rows [] acc = Some acc"
| "read_rows (r # rows) (cls_x, cls_y, cls_demands, cls_dronable, cls_technician_service_time, cls_drone_service_time) =
     (case (row_x r, row_y r, row_demand r, row_technician_service_time r, row_drone_service_time r) of
        (Some vx, Some vy, Some demand, Some technician_service_time, Some drone_service_time) \<Rightarrow>
          read_rows rows
            (cls_x @ [vx], cls_y @ [vy], cls_demands @ [demand],
             cls_dronable @ [row_technician_only r = ''0''],
             cls_technician_service_time @ [technician_service_time],
             cls_drone_service_time @ [drone_service_time])
      | _ \<Rightarrow> None)"

text \<open>
  \<open>D2DPathSolution.import_problem\<close> (lines 369-411): the exception raised, if any, and the
  class state after the call. \<open>files\<close> maps a path to what the library calls find in the
  file, \<open>None\<close> when the file cannot be opened or read; \<open>config_ok\<close> tells whether
  \<open>import_config\<close> returns (the configuration attributes themselves are not part of this
  state).
\<close>

definition import_problem ::
  "(string \<Rightarrow> problem_file option) \<Rightarrow> bool \<Rightarrow> string \<Rightarrow> drone_energy_consumption_mode \<Rightarrow>
   d2d_class \<Rightarrow> py_error option \<times> d2d_class" where
  "import_problem files config_ok problem energy_mode cls =
     (if \<not> d2d_config_imported cls \<and> \<not> config_ok then (Some ConfigError, cls)
      else
        let cls = cls\<lparr>d2d_config_imported := True\<rparr> in
        case files (problem_path problem) of
          None \<Rightarrow> (Some (ImportException problem), cls)
        | Some data \<Rightarrow>
            let cls = cls\<lparr>d2d_problem := Some problem\<rparr> in
            case file_customers data of
              None \<Rightarrow> (Some (ImportException problem), cls)
            | Some customers \<Rightarrow>
                let cls = cls\<lparr>d2d_customers_count := Some customers\<rparr> in
                case file_number_drone data of
                  None \<Rightarrow> (Some (ImportException problem), cls)
                | Some number_drone \<Rightarrow>
                    let cls = cls\<lparr>d2d_drones_count := Some number_drone,
                                   d2d_technicians_count := Some number_drone\<rparr> in
                    case file_flight_time data of
                      None \<Rightarrow> (Some (ImportException problem), cls)
                    | Some flight_time \<Rightarrow>
                        let cls = cls\<lparr>d2d_drones_flight_duration := Some (real flight_time)\<rparr> in
                        case read_rows (file_rows data) ([0], [0], [0], [True], [0], [0]) of
                          None \<Rightarrow> (Some (ImportException problem), cls)
                        | Some (cls_x, cls_y, cls_demands, cls_dronable,
                                cls_technician_service_time, cls_drone_service_time) \<Rightarrow>
                            (None,
                             cls\<lparr>d2d_x := Some cls_x, d2d_y := Some cls_y,
                                  d2d_demands := Some cls_demands, d2d_dronable := Some cls_dronable,
                                  d2d_technician_service_time := Some cls_technician_service_time,
                                  d2d_drone_service_time := Some cls_drone_service_time,
                                  d2d_energy_mode := Some energy_mode\<rparr>))"

text \<open>
  ts/d2d/errors.py: the message of \<open>ImportException(problem)\<close>, with \<open>repr\<close> for the
  conversion \<open>!r\<close> of the identifier.
\<close>

definition import_exception_message :: "(string \<Rightarrow> string) \<Rightarrow> string \<Rightarrow> string" where
  "import_exception_message repr problem = ''Unable to import problem '' @ repr problem"

text \<open>The class state at the start of the program.\<close>

definition d2d_class_initial :: d2d_class where
  "d2d_class_initial =
     \<lparr>d2d_config_imported = False, d2d_problem = None, d2d_customers_count = None,
      d2d_drones_count = None, d2d_technicians_count = None, d2d_drones_flight_duration = None,
      d2d_x = None, d2d_y = None, d2d_demands = None, d2d_dronable = None,
      d2d_technician_service_time = None, d2d_drone_service_time = None,
      d2d_energy_mode = None\<rparr>"

section \<open>ts/d2d/solutions.py: D2DPathSolution.initial\<close>

text \<open>
  Python's floats are a type \<open>'f\<close> whose arithmetic is a parameter: \<open>0.0\<close>, the operators
  \<open>+\<close>, \<open>-\<close>, \<open>*\<close>, \<open>/\<close> and \<open>** 2\<close>, \<open>math.sqrt\<close>, and the comparisons \<open><\<close> and \<open><=\<close>.
  Every operation that computes a number may raise (OverflowError from \<open>** 2\<close>,
  ZeroDivisionError from \<open>/\<close>, ValueError from \<open>sqrt\<close>), and the sums, products and
  comparisons round as the interpreter rounds them: nothing is assumed of them.
\<close>

record 'f float_ops =
  fl_zero :: 'f
  fl_add :: "'f \<Rightarrow> 'f \<Rightarrow> py_error + 'f"
  fl_sub :: "'f \<Rightarrow> 'f \<Rightarrow> py_error + 'f"
  fl_mul :: "'f \<Rightarrow> 'f \<Rightarrow> py_error + 'f"
  fl_div :: "'f \<Rightarrow> 'f \<Rightarrow> py_error + 'f"
  fl_square :: "'f \<Rightarrow> py_error + 'f"
  fl_sqrt :: "'f \<Rightarrow> py_error + 'f"
  fl_lt :: "'f \<Rightarrow> 'f \<Rightarrow> bool"
  fl_le :: "'f \<Rightarrow> 'f \<Rightarrow> bool"

text \<open>Sequencing of two computations that may raise, and whether one returns.\<close>

definition err_bind :: "py_error + 'a \<Rightarrow> ('a \<Rightarrow> py_error + 'b) \<Rightarrow> py_error + 'b" where
  "err_bind m f = (case m of Inl e \<Rightarrow> Inl e | Inr v \<Rightarrow> f v)"

definition returns :: "py_error + 'a \<Rightarrow> bool" where
  "returns m = (case m of Inl e \<Rightarrow> False | Inr v \<Rightarrow> True)"

text \<open>
  The attributes of a drone configuration that \<open>initial\<close> reads (ts/d2d/config.py is not
  among the source files); the three power methods are functions of the weight, and may
  raise.
\<close>

record 'f drone_config =
  cfg_altitude :: 'f
  cfg_takeoff_speed :: 'f
  cfg_landing_speed :: 'f
  cfg_cruise_speed :: 'f
  cfg_capacity :: 'f
  cfg_battery :: 'f
  cfg_takeoff_power :: "'f \<Rightarrow> py_error + 'f"
  cfg_landing_power :: "'f \<Rightarrow> py_error + 'f"
  cfg_cruise_power :: "'f \<Rightarrow> py_error + 'f"

text \<open>
  The class attributes that \<open>initial\<close> reads, once \<open>import_config\<close> and \<open>import_problem\<close>
  have set them.
\<close>

record 'f d2d_data =
  pd_customers_count :: nat
  pd_drones_count :: nat
  pd_technicians_count :: nat
  pd_drones_flight_duration :: 'f
  pd_x :: "'f list"
  pd_y :: "'f list"
  pd_demands :: "'f list"
  pd_dronable :: "bool list"
  pd_energy_mode :: drone_energy_consumption_mode
  pd_drone_linear_config :: "'f drone_config list"
  pd_drone_nonlinear_config :: "'f drone_config list"

text \<open>
  The slots \<open>drone_paths\<close> and \<open>technician_paths\<close> of a solution object (lines 73-74).
\<close>

record d2d_solution =
  sol_drone_paths :: "nat list list list"
  sol_technician_paths :: "nat list list"

text \<open>A read by index that raises IndexError beyond the end.\<close>

definition py_index :: "'a list \<Rightarrow> nat \<Rightarrow> py_error + 'a" where
  "py_index xs i = (if i < length xs then Inr (xs ! i) else Inl IndexError)"

text \<open>
  \<open>D2DPathSolution.distance\<close> (lines 293-295), in the order in which the expression is
  evaluated.
\<close>

definition distance :: "'f float_ops \<Rightarrow> 'f d2d_data \<Rightarrow> nat \<Rightarrow> nat \<Rightarrow> py_error + 'f" where
  "distance fl P first second =
     err_bind (py_index (pd_x P) first) (\<lambda>x1.
     err_bind (py_index (pd_x P) second) (\<lambda>x2.
     err_bind (fl_sub fl x1 x2) (\<lambda>dx.
     err_bind (fl_square fl dx) (\<lambda>sx.
     err_bind (py_index (pd_y P) first) (\<lambda>y1.
     err_bind (py_index (pd_y P) second) (\<lambda>y2.
     err_bind (fl_sub fl y1 y2) (\<lambda>dy.
     err_bind (fl_square fl dy) (\<lambda>sy.
     err_bind (fl_add fl sx sy) (\<lambda>s.
     fl_sqrt fl s)))))))))"

text \<open>
  Python's \<open>min(xs, key=key)\<close>, as the position of the element it returns: an element
  replaces the one kept so far when its key is \<open><\<close> the key kept; ValueError on an empty
  sequence, and the exception of the key function if it raises. \<open>lt\<close> is the comparison
  \<open><\<close> of the keys.
\<close>

fun min_index_loop ::
  "('k \<Rightarrow> 'k \<Rightarrow> bool) \<Rightarrow> ('a \<Rightarrow> py_error + 'k) \<Rightarrow> 'a list \<Rightarrow> nat \<Rightarrow> nat \<Rightarrow> 'k \<Rightarrow> py_error + nat" where
  "min_index_loop lt key [] pos best best_key = Inr best"
| "min_index_loop lt key (a # rest) pos best best_key =
     (case key a of
        Inl e \<Rightarrow> Inl e
      | Inr v \<Rightarrow>
          if lt v best_key then min_index_loop lt key rest (Suc pos) pos v
          else min_index_loop lt key rest (Suc pos) best best_key)"

definition py_min_index ::
  "('k \<Rightarrow> 'k \<Rightarrow> bool) \<Rightarrow> ('a \<Rightarrow> py_error + 'k) \<Rightarrow> 'a list \<Rightarrow> py_error + nat" where
  "py_min_index lt key xs =
     (case xs of
        [] \<Rightarrow> Inl (ValueError ''min() arg is an empty sequence'')
      | a # rest \<Rightarrow>
          (case key a of Inl e \<Rightarrow> Inl e | Inr v \<Rightarrow> min_index_loop lt key rest 1 0 v))"

lemma min_index_loop_range:
  "min_index_loop lt key xs pos best best_key = Inr j \<Longrightarrow> j = best \<or> (pos \<le> j \<and> j < pos + length xs)"
proof (induction xs arbitrary: pos best best_key)
  case Nil
  then show ?case by simp
next
  case (Cons a xs)
  then show ?case
    by (fastforce split: sum.splits if_splits)
qed

lemma py_min_index_less: "py_min_index lt key xs = Inr j \<Longrightarrow> j < length xs"
  by (auto simp: py_min_index_def split: list.splits sum.splits dest!: min_index_loop_range)

text \<open>
  The loop of lines 302-307. The set \<open>technician_only\<close> is the list of its members in the
  order in which the set is iterated; \<open>remove\<close> leaves the other members in their order.
  \<open>k\<close> counts the calls of \<open>next\<close> on the cycle over the paths, which raises StopIteration
  when there is no path.
\<close>

function technician_loop ::
  "'f float_ops \<Rightarrow> 'f d2d_data \<Rightarrow> nat list list \<Rightarrow> nat list \<Rightarrow> nat \<Rightarrow> py_error + nat list list" where
  "technician_loop fl P technician_paths technician_only k =
     (if technician_only = [] then Inr technician_paths
      else if technician_paths = [] then Inl StopIteration
      else
        let t = k mod length technician_paths;
            path = technician_paths ! t
        in case py_min_index (fl_lt fl) (distance fl P (last path)) technician_only of
             Inl e \<Rightarrow> Inl e
           | Inr j \<Rightarrow>
               let index = technician_only ! j
               in technician_loop fl P (technician_paths[t := path @ [index]])
                    (remove1 index technician_only) (Suc k))"
  by pat_completeness auto
termination
proof (relation "measure (\<lambda>(fl, P, technician_paths, technician_only, k). length technician_only)")
  show "wf (measure (\<lambda>(fl, P, technician_paths, technician_only, k). length technician_only))"
    by simp
next
  fix fl :: "'f float_ops" and P :: "'f d2d_data" and technician_paths :: "nat list list"
    and technician_only :: "nat list" and k t :: nat and path :: "nat list" and j index :: nat
  assume "technician_only \<noteq> []"
    and "py_min_index (fl_lt fl) (distance fl P (last path)) technician_only = Inr j"
    and "index = technician_only ! j"
  then have "index \<in> set technician_only"
    using py_min_index_less by fastforce
  then show "((fl, P, technician_paths[t := path @ [index]], remove1 index technician_only, Suc k),
              fl, P, technician_paths, technician_only, k)
             \<in> measure (\<lambda>(fl, P, technician_paths, technician_only, k). length technician_only)"
    using \<open>technician_only \<noteq> []\<close> by (simp add: length_remove1)
qed

declare technician_loop.simps [simp del]

text \<open>\<open>cls.drone_linear_config[drone]\<close> or \<open>cls.drone_nonlinear_config[drone]\<close> (line 323).\<close>

definition config_of :: "'f d2d_data \<Rightarrow> nat \<Rightarrow> py_error + 'f drone_config" where
  "config_of P drone =
     py_index (if pd_energy_mode P = LINEAR then pd_drone_linear_config P
               else pd_drone_nonlinear_config P) drone"

text \<open>
  Lines 328-337: the demand \<open>dw\<close>, the flight time \<open>dt\<close> and the energy \<open>de\<close> of serving
  \<open>index\<close> after \<open>last_node\<close>, in the order in which the statements and their operands are
  evaluated.
\<close>

definition flight_costs ::
  "'f float_ops \<Rightarrow> 'f d2d_data \<Rightarrow> 'f drone_config \<Rightarrow> nat \<Rightarrow> nat \<Rightarrow> 'f \<Rightarrow> py_error + ('f \<times> 'f \<times> 'f)" where
  "flight_costs fl P config last_node index weight =
     err_bind (py_index (pd_demands P) index) (\<lambda>dw.
     err_bind (fl_div fl (cfg_altitude config) (cfg_takeoff_speed config)) (\<lambda>takeoff_dt.
     err_bind (fl_div fl (cfg_altitude config) (cfg_landing_speed config)) (\<lambda>landing_dt.
     err_bind (distance fl P last_node index) (\<lambda>d.
     err_bind (fl_div fl d (cfg_cruise_speed config)) (\<lambda>cruise_dt.
     err_bind (fl_add fl takeoff_dt landing_dt) (\<lambda>vertical_dt.
     err_bind (fl_add fl vertical_dt cruise_dt) (\<lambda>dt.
     err_bind (cfg_takeoff_power config weight) (\<lambda>takeoff_power.
     err_bind (fl_mul fl takeoff_dt takeoff_power) (\<lambda>takeoff_de.
     err_bind (cfg_landing_power config weight) (\<lambda>landing_power.
     err_bind (fl_mul fl landing_dt landing_power) (\<lambda>landing_de.
     err_bind (fl_add fl takeoff_de landing_de) (\<lambda>vertical_de.
     err_bind (cfg_cruise_power config weight) (\<lambda>cruise_power.
     err_bind (fl_mul fl cruise_dt cruise_power) (\<lambda>cruise_de.
     err_bind (fl_add fl vertical_de cruise_de) (\<lambda>de.
     Inr (dw, dt, de))))))))))))))))"

text \<open>
  The test of line 339, whose conjuncts are evaluated from the left until one is false:
  \<open>None\<close> when the customer does not fit, otherwise the three sums, which lines 341-343
  compute again and store.
\<close>

definition drone_fits ::
  "'f float_ops \<Rightarrow> 'f d2d_data \<Rightarrow> 'f drone_config \<Rightarrow> 'f \<Rightarrow> 'f \<Rightarrow> 'f \<Rightarrow> 'f \<Rightarrow> 'f \<Rightarrow> 'f \<Rightarrow>
   py_error + ('f \<times> 'f \<times> 'f) option" where
  "drone_fits fl P config weight time energy dw dt de =
     err_bind (fl_add fl weight dw) (\<lambda>new_weight.
       if \<not> fl_le fl new_weight (cfg_capacity config) then Inr None
       else
         err_bind (fl_add fl time dt) (\<lambda>new_time.
           if \<not> fl_le fl new_time (pd_drones_flight_duration P) then Inr None
           else
             err_bind (fl_add fl energy de) (\<lambda>new_energy.
               if \<not> fl_le fl new_energy (cfg_battery config) then Inr None
               else Inr (Some (new_weight, new_time, new_energy)))))"

text \<open>The key of line 349: the distance from \<open>index\<close> to \<open>path[-2]\<close>.\<close>

definition technician_key :: "'f float_ops \<Rightarrow> 'f d2d_data \<Rightarrow> nat \<Rightarrow> nat list \<Rightarrow> py_error + 'f" where
  "technician_key fl P index path =
     (if length path < 2 then Inl IndexError else distance fl P index (path ! (length path - 2)))"

text \<open>
  The loop of lines 318-352, the set \<open>dronable\<close> being the list of its members in the order
  in which the set is iterated. \<open>paths[-1].append(v)\<close> is
  \<open>butlast paths @ [last paths @ [v]]\<close> and \<open>path.insert(-1, v)\<close> is
  \<open>butlast path @ [v, last path]\<close>.
\<close>

function drone_loop ::
  "'f float_ops \<Rightarrow> 'f d2d_data \<Rightarrow> nat list list list \<Rightarrow> 'f list \<Rightarrow> 'f list \<Rightarrow> 'f list \<Rightarrow> nat list \<Rightarrow>
   nat list list \<Rightarrow> nat \<Rightarrow> py_error + (nat list list list \<times> nat list list)" where
  "drone_loop fl P drone_paths weight time energy dronable technician_paths k =
     (if dronable = [] then Inr (drone_paths, technician_paths)
      else if pd_drones_count P = 0 then Inl StopIteration
      else
        let drone = k mod pd_drones_count P;
            paths = drone_paths ! drone
        in case config_of P drone of
             Inl e \<Rightarrow> Inl e
           | Inr config \<Rightarrow>
               let last_node = last (last paths)
               in case py_min_index (fl_lt fl) (distance fl P last_node) dronable of
                    Inl e \<Rightarrow> Inl e
                  | Inr j \<Rightarrow>
                      let index = dronable ! j
                      in case flight_costs fl P config last_node index (weight ! drone) of
                           Inl e \<Rightarrow> Inl e
                         | Inr (dw, dt, de) \<Rightarrow>
                             (case drone_fits fl P config (weight ! drone) (time ! drone)
                                     (energy ! drone) dw dt de of
                                Inl e \<Rightarrow> Inl e
                              | Inr (Some (new_weight, new_time, new_energy)) \<Rightarrow>
                                  drone_loop fl P
                                    (drone_paths[drone := butlast paths @ [last paths @ [index]]])
                                    (weight[drone := new_weight])
                                    (time[drone := new_time])
                                    (energy[drone := new_energy])
                                    (remove1 index dronable) technician_paths (Suc k)
                              | Inr None \<Rightarrow>
                                  (case py_min_index (fl_lt fl) (technician_key fl P index)
                                          technician_paths of
                                     Inl e \<Rightarrow> Inl e
                                   | Inr t \<Rightarrow>
                                       drone_loop fl P
                                         (drone_paths[drone := butlast paths @ [last paths @ [0], [0]]])
                                         weight time energy (remove1 index dronable)
                                         (technician_paths
                                            [t := butlast (technician_paths ! t)
                                                  @ [index, last (technician_paths ! t)]])
                                         (Suc k))))"
  by pat_completeness auto
termination
proof (relation "measure (\<lambda>(fl, P, drone_paths, weight, time, energy, dronable, technician_paths, k).
                            length dronable)", goal_cases)
  case 1
  then show ?case by simp
next
  case (2 fl P drone_paths weight time energy dronable technician_paths k drone paths config
          last_node j index)
  then have "index \<in> set dronable" using py_min_index_less by fastforce
  then show ?case using 2(1) by (simp add: length_remove1)
next
  case (3 fl P drone_paths weight time energy dronable technician_paths k drone paths config
          last_node j index)
  then have "index \<in> set dronable" using py_min_index_less by fastforce
  then show ?case using 3(1) by (simp add: length_remove1)
qed

declare drone_loop.simps [simp del]

text \<open>
  Lines 297-359 of \<open>D2DPathSolution.initial\<close>: the two arguments that it hands to the
  constructor. The two set comprehensions read \<open>dronable[e]\<close> for every customer \<open>e\<close> from 1
  to \<open>customers_count\<close>; \<open>set_iter\<close> gives the order in which the interpreter iterates the
  set built from the customers inserted in that order.
\<close>

definition initial_paths ::
  "'f float_ops \<Rightarrow> (nat list \<Rightarrow> nat list) \<Rightarrow> 'f d2d_data \<Rightarrow> py_error + d2d_solution" where
  "initial_paths fl set_iter P =
     (let n = pd_customers_count P;
          drones = pd_drones_count P
      in if 0 < n \<and> length (pd_dronable P) \<le> n then Inl IndexError
         else
           let technician_only = set_iter (filter (\<lambda>e. \<not> pd_dronable P ! e) [1..<Suc n])
           in case technician_loop fl P (replicate (pd_technicians_count P) [0]) technician_only 0 of
                Inl e \<Rightarrow> Inl e
              | Inr technician_paths \<Rightarrow>
                  let technician_paths = map (\<lambda>path. path @ [0]) technician_paths;
                      dronable = set_iter (filter (\<lambda>e. pd_dronable P ! e) [1..<Suc n])
                  in case drone_loop fl P (replicate drones [[0]]) (replicate drones (fl_zero fl))
                            (replicate drones (fl_zero fl)) (replicate drones (fl_zero fl))
                            dronable technician_paths 0 of
                       Inl e \<Rightarrow> Inl e
                     | Inr (drone_paths, technician_paths) \<Rightarrow>
                         Inr \<lparr>sol_drone_paths =
                                map (\<lambda>paths. butlast paths @ [last paths @ [0]]) drone_paths,
                              sol_technician_paths =
                                filter (\<lambda>path. 2 < length path) technician_paths\<rparr>)"

text \<open>
  The constructor (lines 62-102). Lines 73-74 store copies of the two arguments. What
  follows (lines 76-102) computes the timespan and the total waiting time from the arrival
  timestamps and hands them to \<open>SolutionMetricsMixin.__init__\<close> (ts/d2d/mixins.py is not
  among the source files); it assigns neither \<open>drone_paths\<close> nor \<open>technician_paths\<close>, and it
  is the parameter \<open>metrics\<close>: it may return a value, raise, or not return at all (\<open>None\<close>;
  the loop of line 150 runs for as long as a distance stays positive).
\<close>

definition D2DPathSolution_init ::
  "(d2d_solution \<Rightarrow> (py_error + 'm) option) \<Rightarrow> nat list list list \<Rightarrow> nat list list \<Rightarrow>
   (py_error + d2d_solution \<times> 'm) option" where
  "D2DPathSolution_init metrics drone_paths technician_paths =
     (let self = \<lparr>sol_drone_paths = drone_paths, sol_technician_paths = technician_paths\<rparr>
      in case metrics self of
           None \<Rightarrow> None
         | Some (Inl e) \<Rightarrow> Some (Inl e)
         | Some (Inr m) \<Rightarrow> Some (Inr (self, m)))"

text \<open>
  \<open>D2DPathSolution.initial\<close> (lines 297-360): the solution object that the constructor
  returns for the two arguments; \<open>None\<close> when the call does not return.
\<close>

definition initial ::
  "'f float_ops \<Rightarrow> (nat list \<Rightarrow> nat list) \<Rightarrow> (d2d_solution \<Rightarrow> (py_error + 'm) option) \<Rightarrow>
   'f d2d_data \<Rightarrow> (py_error + d2d_solution \<times> 'm) option" where
  "initial fl set_iter metrics P =
     (case initial_paths fl set_iter P of
        Inl e \<Rightarrow> Some (Inl e)
      | Inr args \<Rightarrow>
          D2DPathSolution_init metrics (sol_drone_paths args) (sol_technician_paths args))"

text \<open>
  The class data on which the two loops of \<open>initial\<close> find what they index: at least one
  drone and one technician, tuples that cover the depot and every customer, and a
  configuration for every drone.
\<close>

definition d2d_wf :: "'f d2d_data \<Rightarrow> bool" where
  "d2d_wf P =
     (let n = pd_customers_count P;
          configs = (if pd_energy_mode P = LINEAR then pd_drone_linear_config P
                     else pd_drone_nonlinear_config P)
      in 0 < pd_drones_count P \<and> 0 < pd_technicians_count P \<and>
         n < length (pd_x P) \<and> n < length (pd_y P) \<and>
         n < length (pd_demands P) \<and> n < length (pd_dronable P) \<and>
         pd_drones_count P \<le> length configs)"

text \<open>
  The arithmetic that the two loops of \<open>initial\<close> use does not raise: no sum and no
  product (as it is with floats, which overflow to \<open>inf\<close>), no distance between two of the
  nodes, and for the configuration of every drone neither the two divisions of the
  altitude, nor a division by the cruise speed, nor a power method.
\<close>

definition arith_ok :: "'f float_ops \<Rightarrow> 'f d2d_data \<Rightarrow> bool" where
  "arith_ok fl P =
     (let n = pd_customers_count P;
          configs = (if pd_energy_mode P = LINEAR then pd_drone_linear_config P
                     else pd_drone_nonlinear_config P)
      in (\<forall>a b. returns (fl_add fl a b)) \<and> (\<forall>a b. returns (fl_mul fl a b)) \<and>
         (\<forall>i \<le> n. \<forall>j \<le> n. returns (distance fl P i j)) \<and>
         (\<forall>drone < pd_drones_count P.
            returns (fl_div fl (cfg_altitude (configs ! drone)) (cfg_takeoff_speed (configs ! drone))) \<and>
            returns (fl_div fl (cfg_altitude (configs ! drone)) (cfg_landing_speed (configs ! drone))) \<and>
            (\<forall>d. returns (fl_div fl d (cfg_cruise_speed (configs ! drone)))) \<and>
            (\<forall>w. returns (cfg_takeoff_power (configs ! drone) w)) \<and>
            (\<forall>w. returns (cfg_landing_power (configs ! drone) w)) \<and>
            (\<forall>w. returns (cfg_cruise_power (configs ! drone) w))))"

text \<open>
  The customers that a list of paths visits, with their multiplicities (the depot 0 is
  no customer); a path that begins and ends at the depot; and the paths of one drone
  while the loop runs: closed paths followed by an open one that starts at the depot.
\<close>

definition visits :: "nat list list \<Rightarrow> nat multiset" where
  "visits paths = filter_mset (\<lambda>i. i \<noteq> 0) (mset (concat paths))"

definition depot_path :: "nat list \<Rightarrow> bool" where
  "depot_path path = (2 \<le> length path \<and> hd path = 0 \<and> last path = 0)"

definition open_paths :: "nat list list \<Rightarrow> bool" where
  "open_paths paths =
     (paths \<noteq> [] \<and> list_all depot_path (butlast paths) \<and> last paths \<noteq> [] \<and> hd (last paths) = 0)"

text \<open>
  The iteration of each of the two sets of customers yields every member once, in
  whatever order.
\<close>

definition set_order_ok :: "(nat list \<Rightarrow> nat list) \<Rightarrow> 'f d2d_data \<Rightarrow> bool" where
  "set_order_ok set_iter P =
     (let customers = [1..<Suc (pd_customers_count P)];
          technician_only = filter (\<lambda>e. \<not> pd_dronable P ! e) customers;
          dronable = filter (\<lambda>e. pd_dronable P ! e) customers
      in mset (set_iter technician_only) = mset technician_only \<and>
         mset (set_iter dronable) = mset dronable)"

text \<open>
  The routes of a solution in which every customer from 1 to \<open>customers_count\<close> appears
  exactly once over all the paths, every customer that is not dronable is on a technician
  path, and every drone path and every technician path begins and ends at the depot 0.
\<close>

definition valid_routes :: "'f d2d_data \<Rightarrow> d2d_solution \<Rightarrow> bool" where
  "valid_routes P sol =
     (visits (concat (sol_drone_paths sol)) + visits (sol_technician_paths sol)
        = mset [1..<Suc (pd_customers_count P)] \<and>
      (\<forall>e \<in> set [1..<Suc (pd_customers_count P)].
         \<not> pd_dronable P ! e \<longrightarrow> e \<in> set (concat (sol_technician_paths sol))) \<and>
      (\<forall>paths \<in> set (sol_drone_paths sol). \<forall>path \<in> set paths. depot_path path) \<and>
      (\<forall>path \<in> set (sol_technician_paths sol). depot_path path))"

text \<open>
  A linkage in which \<open>before\<close> is the inverse of \<open>after\<close> on the nodes, and a distance
  table with an entry for every pair of the \<open>n\<close> nodes.
\<close>

definition valid_linkage :: "nat list \<Rightarrow> nat list \<Rightarrow> bool" where
  "valid_linkage after before =
     (length before = length after \<and>
      (\<forall>i < length after.
         after ! i < length after \<and> before ! (after ! i) = i \<and>
         before ! i < length after \<and> after ! (before ! i) = i))"

definition square_table :: "'c list list \<Rightarrow> nat \<Rightarrow> bool" where
  "square_table distances n = (length distances = n \<and> (\<forall>row \<in> set distances. length row = n))"

section \<open>Theorems\<close>

lemma isinstance_own_class: "isinstance x (sol_class x)"
  by (simp add: isinstance_def)

lemma solution_equals_same_class:
  "sol_class b = sol_class a \<Longrightarrow> solution_equals a b = (sol_cost a = sol_cost b)"
  using isinstance_own_class [of b] by (simp add: solution_equals_def solution_eq_def)

text \<open>
  C9. For solutions a and b of the same concrete class, \<open>a.__eq__(b)\<close> is \<open>True\<close> exactly
  when the costs are equal and \<open>a.__lt__(b)\<close> is \<open>True\<close> exactly when the cost of a is
  smaller, and so is \<open>a == b\<close>; the encodings play no part. In a set the hash counts as
  well: with the \<open>__hash__\<close> of \<open>BaseSolution\<close>, adding a solution to a set raises
  NotImplementedError; with a \<open>__hash__\<close> of the concrete class, the set built from a and b
  has one element exactly when the hashes are equal and the costs are equal, and two
  elements otherwise.
\<close>

theorem solution_compare_by_cost:
  fixes a b :: "('e, 'c::ord) solution"
  assumes "sol_class b = sol_class a"
  shows "solution_eq a b = Some (sol_cost a = sol_cost b) \<and>
         solution_lt a b = Some (sol_cost a < sol_cost b) \<and>
         solution_equals a b = (sol_cost a = sol_cost b) \<and>
         (case cls_hash (sol_class a) of
            None \<Rightarrow>
              hash_set_add solution_hash solution_equals [] a = Inl NotImplementedError \<and>
              solution_pair_set a b = Inl NotImplementedError
          | Some h \<Rightarrow>
              (\<exists>s. solution_pair_set a b = Inr s \<and>
                   length s = (if h (sol_encoding a) = h (sol_encoding b) \<and> sol_cost a = sol_cost b
                               then 1 else 2)))"
proof -
  have inst: "isinstance b (sol_class a)"
    using isinstance_own_class [of b] assms by simp
  have eq: "solution_equals a b = (sol_cost a = sol_cost b)"
    by (rule solution_equals_same_class [OF assms])
  have sets: "(case cls_hash (sol_class a) of
            None \<Rightarrow>
              hash_set_add solution_hash solution_equals [] a = Inl NotImplementedError \<and>
              solution_pair_set a b = Inl NotImplementedError
          | Some h \<Rightarrow>
              (\<exists>s. solution_pair_set a b = Inr s \<and>
                   length s = (if h (sol_encoding a) = h (sol_encoding b) \<and> sol_cost a = sol_cost b
                               then 1 else 2)))"
  proof (cases "cls_hash (sol_class a)")
    case None
    then show ?thesis
      by (simp add: solution_pair_set_def hash_set_add_def solution_hash_def)
  next
    case (Some h)
    then have hb: "cls_hash (sol_class b) = Some h" using assms by simp
    show ?thesis
      using Some hb eq
      by (simp add: solution_pair_set_def hash_set_add_def hash_set_find_def solution_hash_def)
  qed
  from inst eq sets show ?thesis
    by (simp add: solution_eq_def solution_lt_def)
qed

theorem solution_compare_by_cost_witness:
  "sol_class
     \<lparr>sol_class = \<lparr>cls_name = ''PathSolution'', cls_bases = [''BaseSolution''],
                   cls_hash = Some (\<lambda>path. int (path ! 1))\<rparr>,
      sol_encoding = [0, 2, 1 :: nat], sol_cost = (7 :: int)\<rparr> =
   sol_class
     \<lparr>sol_class = \<lparr>cls_name = ''PathSolution'', cls_bases = [''BaseSolution''],
                   cls_hash = Some (\<lambda>path. int (path ! 1))\<rparr>,
      sol_encoding = [0, 1, 2 :: nat], sol_cost = (7 :: int)\<rparr> \<and>
   solution_eq
     \<lparr>sol_class = \<lparr>cls_name = ''PathSolution'', cls_bases = [''BaseSolution''],
                   cls_hash = Some (\<lambda>path. int (path ! 1))\<rparr>,
      sol_encoding = [0, 1, 2 :: nat], sol_cost = (7 :: int)\<rparr>
     \<lparr>sol_class = \<lparr>cls_name = ''PathSolution'', cls_bases = [''BaseSolution''],
                   cls_hash = Some (\<lambda>path. int (path ! 1))\<rparr>,
      sol_encoding = [0, 2, 1 :: nat], sol_cost = (7 :: int)\<rparr> = Some True \<and>
   solution_lt
     \<lparr>sol_class = \<lparr>cls_name = ''PathSolution'', cls_bases = [''BaseSolution''],
                   cls_hash = Some (\<lambda>path. int (path ! 1))\<rparr>,
      sol_encoding = [0, 1, 2 :: nat], sol_cost = (7 :: int)\<rparr>
     \<lparr>sol_class = \<lparr>cls_name = ''PathSolution'', cls_bases = [''BaseSolution''],
                   cls_hash = Some (\<lambda>path. int (path ! 1))\<rparr>,
      sol_encoding = [0, 2, 1 :: nat], sol_cost = (7 :: int)\<rparr> = Some False \<and>
   (\<exists>s. solution_pair_set
     \<lparr>sol_class = \<lparr>cls_name = ''PathSolution'', cls_bases = [''BaseSolution''],
                   cls_hash = Some (\<lambda>path. int (path ! 1))\<rparr>,
      sol_encoding = [0, 1, 2 :: nat], sol_cost = (7 :: int)\<rparr>
     \<lparr>sol_class = \<lparr>cls_name = ''PathSolution'', cls_bases = [''BaseSolution''],
                   cls_hash = Some (\<lambda>path. int (path ! 1))\<rparr>,
      sol_encoding = [0, 2, 1 :: nat], sol_cost = (7 :: int)\<rparr> = Inr s \<and> length s = 2)"
  using solution_compare_by_cost
    [where a = "\<lparr>sol_class = \<lparr>cls_name = ''PathSolution'', cls_bases = [''BaseSolution''],
                   cls_hash = Some (\<lambda>path. int (path ! 1))\<rparr>,
      sol_encoding = [0, 1, 2 :: nat], sol_cost = (7 :: int)\<rparr>"
       and b = "\<lparr>sol_class = \<lparr>cls_name = ''PathSolution'', cls_bases = [''BaseSolution''],
                   cls_hash = Some (\<lambda>path. int (path ! 1))\<rparr>,
      sol_encoding = [0, 2, 1 :: nat], sol_cost = (7 :: int)\<rparr>"]
  by simp

text \<open>
  Two solutions of one class with different encodings and the same cost are equal, and
  yet they do not count as one element of a set: with the \<open>__hash__\<close> that \<open>BaseSolution\<close>
  gives them, adding the first to a set raises NotImplementedError, and with a \<open>__hash__\<close>
  of their class that tells the encodings apart, the set holds both.
\<close>

theorem solution_set_membership_counterexample:
  "solution_equals
     \<lparr>sol_class = \<lparr>cls_name = ''PathSolution'', cls_bases = [''BaseSolution''],
                   cls_hash = None\<rparr>,
      sol_encoding = [0, 1, 2 :: nat], sol_cost = (7 :: int)\<rparr>
     \<lparr>sol_class = \<lparr>cls_name = ''PathSolution'', cls_bases = [''BaseSolution''],
                   cls_hash = None\<rparr>,
      sol_encoding = [0, 2, 1 :: nat], sol_cost = (7 :: int)\<rparr> \<and>
   hash_set_add solution_hash solution_equals []
     \<lparr>sol_class = \<lparr>cls_name = ''PathSolution'', cls_bases = [''BaseSolution''],
                   cls_hash = None\<rparr>,
      sol_encoding = [0, 1, 2 :: nat], sol_cost = (7 :: int)\<rparr> = Inl NotImplementedError \<and>
   solution_equals
     \<lparr>sol_class = \<lparr>cls_name = ''PathSolution'', cls_bases = [''BaseSolution''],
                   cls_hash = Some (\<lambda>path. int (path ! 1))\<rparr>,
      sol_encoding = [0, 1, 2 :: nat], sol_cost = (7 :: int)\<rparr>
     \<lparr>sol_class = \<lparr>cls_name = ''PathSolution'', cls_bases = [''BaseSolution''],
                   cls_hash = Some (\<lambda>path. int (path ! 1))\<rparr>,
      sol_encoding = [0, 2, 1 :: nat], sol_cost = (7 :: int)\<rparr> \<and>
   solution_pair_set
     \<lparr>sol_class = \<lparr>cls_name = ''PathSolution'', cls_bases = [''BaseSolution''],
                   cls_hash = Some (\<lambda>path. int (path ! 1))\<rparr>,
      sol_encoding = [0, 1, 2 :: nat], sol_cost = (7 :: int)\<rparr>
     \<lparr>sol_class = \<lparr>cls_name = ''PathSolution'', cls_bases = [''BaseSolution''],
                   cls_hash = Some (\<lambda>path. int (path ! 1))\<rparr>,
      sol_encoding = [0, 2, 1 :: nat], sol_cost = (7 :: int)\<rparr> =
   Inr [(1, \<lparr>sol_class = \<lparr>cls_name = ''PathSolution'', cls_bases = [''BaseSolution''],
                   cls_hash = Some (\<lambda>path. int (path ! 1))\<rparr>,
      sol_encoding = [0, 1, 2 :: nat], sol_cost = (7 :: int)\<rparr>),
        (2, \<lparr>sol_class = \<lparr>cls_name = ''PathSolution'', cls_bases = [''BaseSolution''],
                   cls_hash = Some (\<lambda>path. int (path ! 1))\<rparr>,
      sol_encoding = [0, 2, 1 :: nat], sol_cost = (7 :: int)\<rparr>)]"
  by (simp add: solution_equals_def solution_eq_def isinstance_def solution_pair_set_def
      hash_set_add_def hash_set_find_def solution_hash_def)

subsection \<open>The tabu memory\<close>

lemma add_to_tabu_run:
  "tabu_set t = set (tabu_list t) \<Longrightarrow> distinct (tabu_list t @ xs) \<Longrightarrow> length (tabu_list t) \<le> maxlen \<Longrightarrow>
   tabu_list (foldl (\<lambda>t x. add_to_tabu maxlen x t) t xs)
     = drop (length (tabu_list t @ xs) - maxlen) (tabu_list t @ xs) \<and>
   tabu_set (foldl (\<lambda>t x. add_to_tabu maxlen x t) t xs)
     = set (tabu_list (foldl (\<lambda>t x. add_to_tabu maxlen x t) t xs))"
proof (induction xs arbitrary: t)
  case Nil
  then show ?case by simp
next
  case (Cons x xs)
  let ?l = "tabu_list t @ [x]"
  let ?t' = "add_to_tabu maxlen x t"
  have dl: "distinct ?l" using Cons.prems(2) by auto
  show ?case
  proof (cases "maxlen < length ?l")
    case True
    then have len: "length (tabu_list t) = maxlen" using Cons.prems(3) by simp
    have tl': "tabu_list ?t' = tl ?l" and ts': "tabu_set ?t' = insert x (tabu_set t) - {hd ?l}"
      using True by (simp_all add: add_to_tabu_def Let_def)
    have "set ?l = insert (hd ?l) (set (tl ?l))" "hd ?l \<notin> set (tl ?l)"
      using dl by (cases ?l; auto)+
    then have s1: "tabu_set ?t' = set (tabu_list ?t')"
      using tl' ts' Cons.prems(1) by auto
    have app: "tabu_list ?t' @ xs = tl (tabu_list t @ x # xs)"
      using tl' by (cases "tabu_list t") auto
    have s2: "distinct (tabu_list ?t' @ xs)"
      unfolding app using Cons.prems(2) by (simp add: distinct_tl)
    have s3: "length (tabu_list ?t') \<le> maxlen" using tl' len by simp
    have "drop (length (tabu_list ?t' @ xs) - maxlen) (tabu_list ?t' @ xs)
        = drop (length (tabu_list t @ x # xs) - maxlen) (tabu_list t @ x # xs)"
      unfolding app using len by (simp add: drop_tl [symmetric] drop_Suc[symmetric] Suc_diff_le)
    with Cons.IH [OF s1 s2 s3] show ?thesis by simp
  next
    case False
    then have tl': "tabu_list ?t' = ?l" and ts': "tabu_set ?t' = insert x (tabu_set t)"
      by (simp_all add: add_to_tabu_def Let_def)
    have s1: "tabu_set ?t' = set (tabu_list ?t')" using tl' ts' Cons.prems(1) by auto
    have s2: "distinct (tabu_list ?t' @ xs)" using tl' Cons.prems(2) by simp
    have s3: "length (tabu_list ?t') \<le> maxlen" using tl' False by simp
    from Cons.IH [OF s1 s2 s3] show ?thesis using tl' by simp
  qed
qed

text \<open>
  C5. From the empty memory, after inserting more than \<open>maxlen\<close> distinct move
  descriptors in order, the sequence holds exactly the most recent \<open>maxlen\<close> of them, the
  set holds the same elements, and the membership query is false for every evicted
  (older) descriptor.
\<close>

theorem tabu_memory_bound:
  "distinct xs \<Longrightarrow> maxlen < length xs \<Longrightarrow>
   tabu_list (foldl (\<lambda>t x. add_to_tabu maxlen x t) tabu_empty xs) = drop (length xs - maxlen) xs \<and>
   tabu_set (foldl (\<lambda>t x. add_to_tabu maxlen x t) tabu_empty xs) = set (drop (length xs - maxlen) xs) \<and>
   tabu_set (foldl (\<lambda>t x. add_to_tabu maxlen x t) tabu_empty xs)
     = set (tabu_list (foldl (\<lambda>t x. add_to_tabu maxlen x t) tabu_empty xs)) \<and>
   (\<forall>x \<in> set (take (length xs - maxlen) xs).
      \<not> is_tabu x (foldl (\<lambda>t x. add_to_tabu maxlen x t) tabu_empty xs))"
proof -
  assume d: "distinct xs"
  have r: "tabu_list (foldl (\<lambda>t x. add_to_tabu maxlen x t) tabu_empty xs) = drop (length xs - maxlen) xs"
    "tabu_set (foldl (\<lambda>t x. add_to_tabu maxlen x t) tabu_empty xs)
       = set (tabu_list (foldl (\<lambda>t x. add_to_tabu maxlen x t) tabu_empty xs))"
    using add_to_tabu_run [of tabu_empty xs maxlen] d by (simp_all add: tabu_empty_def)
  have "set (take (length xs - maxlen) xs) \<inter> set (drop (length xs - maxlen) xs) = {}"
    using d by (metis append_take_drop_id distinct_append)
  then show ?thesis using r by (auto simp: is_tabu_def)
qed

theorem tabu_memory_bound_witness:
  "distinct [''A'', ''B'', ''C''] \<and> (2::nat) < length [''A'', ''B'', ''C''] \<and>
   tabu_list (foldl (\<lambda>t x. add_to_tabu 2 x t) tabu_empty [''A'', ''B'', ''C'']) = [''B'', ''C''] \<and>
   \<not> is_tabu ''A'' (foldl (\<lambda>t x. add_to_tabu 2 x t) tabu_empty [''A'', ''B'', ''C'']) \<and>
   is_tabu ''B'' (foldl (\<lambda>t x. add_to_tabu 2 x t) tabu_empty [''A'', ''B'', ''C'']) \<and>
   is_tabu ''C'' (foldl (\<lambda>t x. add_to_tabu 2 x t) tabu_empty [''A'', ''B'', ''C''])"
  using tabu_memory_bound [of "[''A'', ''B'', ''C'']" 2]
  by (simp add: is_tabu_def)

subsection \<open>The sharded reduction of find_best_candidate\<close>

lemma is_min_of_empty: "is_min_of f cost {} None"
  by (simp add: is_min_of_def)

lemma is_min_of_insert:
  assumes "is_min_of f cost A acc"
  shows "is_min_of f cost (insert m A)
           (case acc of None \<Rightarrow> Some (f m, m)
            | Some (result, min_swap) \<Rightarrow>
                if cost (f m) < cost result then Some (f m, m) else Some (result, min_swap))"
  using assms by (auto simp: is_min_of_def split: option.splits)

lemma is_min_of_cost:
  "is_min_of f cost M (Some (s, m)) \<Longrightarrow> is_min_of f cost M (Some (s', m')) \<Longrightarrow> cost s = cost s'"
  by (auto simp: is_min_of_def intro: antisym)

lemma static_loop_min:
  assumes "\<forall>m \<in> set ms. ev m = Some (f m)" and "is_min_of f cost A acc"
  shows "\<exists>r. static_loop ev cost ms acc = Some r \<and> is_min_of f cost (A \<union> set ms) r"
  using assms
proof (induction ms arbitrary: acc A)
  case Nil
  then show ?case by simp
next
  case (Cons m ms)
  let ?acc = "case acc of None \<Rightarrow> Some (f m, m)
            | Some (result, min_swap) \<Rightarrow>
                if cost (f m) < cost result then Some (f m, m) else Some (result, min_swap)"
  have "is_min_of f cost (insert m A) ?acc" by (rule is_min_of_insert [OF Cons.prems(2)])
  moreover have "\<forall>m \<in> set ms. ev m = Some (f m)" using Cons.prems(1) by simp
  ultimately obtain r where "static_loop ev cost ms ?acc = Some r"
    "is_min_of f cost (insert m A \<union> set ms) r"
    using Cons.IH by blast
  then show ?case using Cons.prems(1) by simp
qed

lemma reduce_results_min:
  assumes "list_all2 (\<lambda>r M. is_min_of f cost M r) rs Ms" and "is_min_of f cost A acc"
  shows "is_min_of f cost (A \<union> \<Union> (set Ms)) (reduce_results cost rs acc)"
  using assms
proof (induction rs arbitrary: Ms acc A)
  case Nil
  then show ?case by simp
next
  case (Cons r rs)
  then obtain M Ms' where Ms: "Ms = M # Ms'" "is_min_of f cost M r"
    "list_all2 (\<lambda>r M. is_min_of f cost M r) rs Ms'"
    by (auto simp: list_all2_Cons1)
  show ?case
  proof (cases r)
    case None
    then have "M = {}" using Ms(2) by (simp add: is_min_of_def)
    then show ?thesis using Cons.IH [OF Ms(3) Cons.prems(2)] None Ms(1) by simp
  next
    case (Some p)
    obtain s m where p: "p = (s, m)" by (cases p)
    let ?acc = "case acc of None \<Rightarrow> Some (s, m)
        | Some (result, min_swap) \<Rightarrow>
            if cost s < cost result then Some (s, m) else Some (result, min_swap)"
    have "is_min_of f cost (A \<union> M) ?acc"
      using Ms(2) Cons.prems(2) Some p
      by (auto simp: is_min_of_def split: option.splits)
    from Cons.IH [OF Ms(3) this] show ?thesis using Some p Ms(1) by (simp add: Un_assoc)
  qed
qed

lemma Union_update_append:
  "k < length xs \<Longrightarrow> (\<Union>x \<in> set (xs[k := xs ! k @ [m]]). set x) = (\<Union>x \<in> set xs. set x) \<union> {m}"
proof (induction xs arbitrary: k)
  case Nil
  then show ?case by simp
next
  case (Cons x xs)
  then show ?case by (cases k) auto
qed

lemma distribute_step_union:
  assumes "k < length args" "length args = c"
  shows "\<Union> (set (map set (fst (foldl (distribute_step c) (args, k) ms))))
           = \<Union> (set (map set args)) \<union> set ms
         \<and> length (fst (foldl (distribute_step c) (args, k) ms)) = c"
  using assms
proof (induction ms arbitrary: args k)
  case Nil
  then show ?case by simp
next
  case (Cons m ms)
  let ?args = "args[k := args ! k @ [m]]"
  have c: "0 < c" using Cons.prems by auto
  have 1: "(k + 1) mod c < length ?args" using Cons.prems c by simp
  have 2: "length ?args = c" using Cons.prems by simp
  have 3: "\<Union> (set (map set ?args)) = \<Union> (set (map set args)) \<union> {m}"
    using Union_update_append [OF Cons.prems(1), of m] by simp
  from Cons.IH [OF 1 2] 3 show ?case by (simp add: distribute_step_def)
qed

lemma distribute_union:
  "0 < c \<Longrightarrow> \<Union> (set (map set (distribute c ms))) = set ms \<and> length (distribute c ms) = c"
  using distribute_step_union [of 0 "replicate c []" c ms]
  by (simp add: distribute_def)

lemma those_map_Some: "those (map (\<lambda>x. Some (g x)) xs) = Some (map g xs)"
  by (induction xs) simp_all


lemma sequential_best_min:
  assumes "moves \<noteq> []"
  shows "\<exists>m. sequential_best f cost moves = Some (f m, m)
             \<and> is_min_of f cost (set moves) (Some (f m, m))"
proof -
  let ?M = "Min (set (map (cost \<circ> f) moves))"
  let ?P = "\<lambda>(s, m). cost s = ?M"
  have "?M \<in> set (map (cost \<circ> f) moves)" using assms by (intro Min_in) auto
  then obtain m0 where m0: "m0 \<in> set moves" "cost (f m0) = ?M" by auto
  then have "\<exists>x \<in> set (map (\<lambda>m. (f m, m)) moves). ?P x" by auto
  then obtain x where x: "find ?P (map (\<lambda>m. (f m, m)) moves) = Some x"
    by (cases "find ?P (map (\<lambda>m. (f m, m)) moves)") (auto simp: find_None_iff)
  then have "?P x" "x \<in> set (map (\<lambda>m. (f m, m)) moves)"
    by (auto simp: find_Some_iff)
  then obtain m where m: "x = (f m, m)" "m \<in> set moves" "cost (f m) = ?M" by auto
  have "\<forall>m' \<in> set moves. ?M \<le> cost (f m')" by (auto intro!: Min_le)
  then have "is_min_of f cost (set moves) (Some (f m, m))"
    using m by (simp add: is_min_of_def)
  moreover have "sequential_best f cost moves = Some (f m, m)"
    using x m assms by (simp add: sequential_best_def)
  ultimately show ?thesis by blast
qed

lemma static_loop_snoc:
  "static_loop ev cost (ms @ [m]) acc =
     (case static_loop ev cost ms acc of None \<Rightarrow> None | Some r \<Rightarrow> static_loop ev cost [m] r)"
  by (induction ms arbitrary: acc) (auto split: option.splits)

lemma find_snoc:
  "find P (xs @ [x]) = (case find P xs of None \<Rightarrow> (if P x then Some x else None) | Some y \<Rightarrow> Some y)"
  by (induction xs) auto

lemma sequential_best_snoc:
  assumes "ms \<noteq> []"
  shows "sequential_best f cost (ms @ [m]) =
           (if cost (f m) < Min (set (map (cost \<circ> f) ms)) then Some (f m, m)
            else sequential_best f cost ms)"
proof -
  define M where "M = Min (set (map (cost \<circ> f) ms))"
  define pairs where "pairs = map (\<lambda>m. (f m, m)) ms"
  have Min': "Min (set (map (cost \<circ> f) (ms @ [m]))) = min (cost (f m)) M"
    using assms by (simp add: M_def Min_insert)
  have sb: "sequential_best f cost (ms @ [m])
              = find (\<lambda>(s, m'). cost s = min (cost (f m)) M) (pairs @ [(f m, m)])"
    unfolding sequential_best_def Min' pairs_def by simp
  have sb0: "sequential_best f cost ms = find (\<lambda>(s, m'). cost s = M) pairs"
    unfolding sequential_best_def M_def pairs_def using assms by simp
  obtain m1 where m1: "sequential_best f cost ms = Some (f m1, m1)"
    using sequential_best_min [OF assms] by blast
  have lower: "\<forall>p \<in> set pairs. M \<le> cost (fst p)"
    unfolding M_def pairs_def by (auto intro!: Min_le)
  show ?thesis
  proof (cases "cost (f m) < M")
    case True
    then have "min (cost (f m)) M = cost (f m)" by (auto simp: min_def)
    moreover have "find (\<lambda>(s, m'). cost s = cost (f m)) pairs = None"
      using True lower by (fastforce simp: find_None_iff)
    ultimately have "sequential_best f cost (ms @ [m]) = Some (f m, m)"
      unfolding sb by (simp add: find_snoc)
    then show ?thesis using True unfolding M_def by simp
  next
    case False
    then have "min (cost (f m)) M = M" by (auto simp: min_def)
    then have "sequential_best f cost (ms @ [m]) = sequential_best f cost ms"
      unfolding sb sb0 [symmetric, unfolded m1] using m1 sb0 by (simp add: find_snoc)
    then show ?thesis using False unfolding M_def by simp
  qed
qed

lemma static_loop_sequential:
  "static_loop (\<lambda>m. Some (f m)) cost ms None = Some (sequential_best f cost ms)"
proof (induction ms rule: rev_induct)
  case Nil
  then show ?case by (simp add: sequential_best_def)
next
  case (snoc m ms)
  show ?case
  proof (cases "ms = []")
    case True
    then show ?thesis by (simp add: sequential_best_def)
  next
    case False
    obtain m1 where m1: "sequential_best f cost ms = Some (f m1, m1)"
      "is_min_of f cost (set ms) (Some (f m1, m1))"
      using sequential_best_min [OF False] by blast
    have "cost (f m1) = Min (set (map (cost \<circ> f) ms))"
    proof (rule antisym)
      show "cost (f m1) \<le> Min (set (map (cost \<circ> f) ms))"
        using m1(2) False by (auto simp: is_min_of_def)
      show "Min (set (map (cost \<circ> f) ms)) \<le> cost (f m1)"
        using m1(2) by (auto simp: is_min_of_def intro!: Min_le)
    qed
    then show ?thesis
      using snoc.IH m1(1) False
      by (simp add: static_loop_snoc sequential_best_snoc)
  qed
qed


lemma static_loop_cong:
  "\<forall>m \<in> set ms. ev m = ev' m \<Longrightarrow> static_loop ev cost ms acc = static_loop ev' cost ms acc"
  by (induction ms arbitrary: acc) (auto split: option.splits)

lemma distribute_one_step: "foldl (distribute_step 1) ([xs], 0) ms = ([xs @ ms], 0)"
  by (induction ms arbitrary: xs) (simp_all add: distribute_step_def)

lemma distribute_one: "distribute (Suc 0) ms = [ms]"
  using distribute_one_step [of "[]" ms] by (simp add: distribute_def)

lemma reduce_results_single: "reduce_results cost [r] None = r"
  by (cases r) auto

lemma concurrency_of_pos: "0 < concurrency_of cpu_count"
  by (simp add: concurrency_of_def split: option.splits)

lemma find_best_candidate_reduce:
  fixes distances :: "'c::linordered_ab_group_add list list"
  assumes ok: "\<forall>m \<in> set (swap_moves path first_length second_length). swap distances solution m \<noteq> None"
  shows "\<exists>r. is_min_of (the \<circ> swap distances solution) ps_cost
                (set (swap_moves path first_length second_length)) r \<and>
             (concurrency_of cpu_count = 1 \<longrightarrow>
                r = sequential_best (the \<circ> swap distances solution) ps_cost
                      (swap_moves path first_length second_length)) \<and>
             find_best_candidate cpu_count distances solution path first_length second_length memory =
               (case r of None \<Rightarrow> Inr (None, memory)
                | Some (result, min_swap) \<Rightarrow>
                    Inr (Some result, add_to_tabu Swap_maxlen min_swap memory))"
proof -
  let ?moves = "swap_moves path first_length second_length"
  define f where "f = the \<circ> swap distances solution"
  let ?c = "concurrency_of cpu_count"
  let ?args = "distribute ?c ?moves"
  let ?static = "static_find_best_candidate distances solution"
  have ev: "\<forall>m \<in> set ?moves. swap distances solution m = Some (f m)" using ok by (auto simp: f_def)
  have un: "\<Union> (set (map set ?args)) = set ?moves"
    by (rule distribute_union [OF concurrency_of_pos, THEN conjunct1])
  have each: "\<exists>r. ?static data = Some r \<and> is_min_of f ps_cost (set data) r"
    if "data \<in> set ?args" for data
  proof -
    have "set data \<subseteq> set ?moves" using that un by auto
    then have "\<forall>m \<in> set data. swap distances solution m = Some (f m)" using ev by blast
    from static_loop_min [OF this is_min_of_empty, of ps_cost]
    show ?thesis by (simp add: static_find_best_candidate_def)
  qed
  define results where "results = map (\<lambda>data. the (?static data)) ?args"
  have some: "?static data = Some (the (?static data))" if "data \<in> set ?args" for data
    using each [OF that] by auto
  have meq: "map ?static ?args = map (\<lambda>data. Some (the (?static data))) ?args"
    by (rule map_cong [OF refl]) (rule some)
  have th: "those (map ?static ?args) = Some results"
    unfolding results_def by (subst meq) (rule those_map_Some)
  have "is_min_of f ps_cost (set data) (the (?static data))" if "data \<in> set ?args" for data
    using each [OF that] by auto
  then have "list_all2 (\<lambda>r M. is_min_of f ps_cost M r) results (map set ?args)"
    unfolding results_def list_all2_map1 list_all2_map2
    by (intro list_all2_all_nthI) simp_all
  from reduce_results_min [OF this is_min_of_empty]
  have red: "is_min_of f ps_cost (set ?moves) (reduce_results ps_cost results None)"
    using un by simp
  have one: "reduce_results ps_cost results None = sequential_best f ps_cost ?moves" if "?c = 1"
  proof -
    have "?static ?moves = static_loop (\<lambda>m. Some (f m)) ps_cost ?moves None"
      unfolding static_find_best_candidate_def using ev by (intro static_loop_cong) simp
    then have "?static ?moves = Some (sequential_best f ps_cost ?moves)"
      by (simp add: static_loop_sequential)
    then have "results = [sequential_best f ps_cost ?moves]"
      using that by (simp add: results_def distribute_one)
    then show ?thesis by (simp add: reduce_results_single)
  qed
  have "find_best_candidate cpu_count distances solution path first_length second_length memory =
          (case reduce_results ps_cost results None of None \<Rightarrow> Inr (None, memory)
           | Some (result, min_swap) \<Rightarrow>
               Inr (Some result, add_to_tabu Swap_maxlen min_swap memory))"
    unfolding find_best_candidate_def Let_def th by simp
  with red one show ?thesis unfolding f_def by blast
qed

text \<open>
  C2 (amended). When every enumerated move evaluates, \<open>find_best_candidate\<close> returns no
  candidate exactly when no move is enumerated, and otherwise the result of an
  enumerated move whose cost is the cost of the candidate that the sequential evaluation
  of all moves (first minimum in enumeration order) returns, recording that move in the
  tabu memory. It is that very candidate when there is one bundle or when a single
  enumerated move attains the minimal cost; among several moves of minimal cost the choice
  follows the bundles.
\<close>

theorem find_best_candidate_minimal_cost:
  fixes distances :: "'c::linordered_ab_group_add list list"
  assumes "\<forall>m \<in> set (swap_moves path first_length second_length). swap distances solution m \<noteq> None"
  shows "case sequential_best (the \<circ> swap distances solution) ps_cost
                (swap_moves path first_length second_length) of
           None \<Rightarrow>
             find_best_candidate cpu_count distances solution path first_length second_length memory
               = Inr (None, memory)
         | Some (seq_result, seq_swap) \<Rightarrow>
             (\<exists>result min_swap.
                find_best_candidate cpu_count distances solution path first_length second_length memory
                  = Inr (Some result, add_to_tabu Swap_maxlen min_swap memory) \<and>
                min_swap \<in> set (swap_moves path first_length second_length) \<and>
                swap distances solution min_swap = Some result \<and>
                ps_cost result = ps_cost seq_result \<and>
                (concurrency_of cpu_count = 1 \<or>
                 (\<forall>m \<in> set (swap_moves path first_length second_length).
                    ps_cost (the (swap distances solution m)) = ps_cost seq_result \<longrightarrow> m = seq_swap)
                 \<longrightarrow> result = seq_result \<and> min_swap = seq_swap))"
proof -
  let ?moves = "swap_moves path first_length second_length"
  define f where "f = the \<circ> swap distances solution"
  have ev: "\<forall>m \<in> set ?moves. swap distances solution m = Some (f m)"
    using assms by (auto simp: f_def)
  obtain r where r: "is_min_of f ps_cost (set ?moves) r"
    "concurrency_of cpu_count = 1 \<longrightarrow> r = sequential_best f ps_cost ?moves"
    "find_best_candidate cpu_count distances solution path first_length second_length memory =
       (case r of None \<Rightarrow> Inr (None, memory)
        | Some (result, min_swap) \<Rightarrow> Inr (Some result, add_to_tabu Swap_maxlen min_swap memory))"
    using find_best_candidate_reduce [OF assms, of cpu_count memory] unfolding f_def by blast
  have main: "case sequential_best f ps_cost ?moves of
           None \<Rightarrow>
             find_best_candidate cpu_count distances solution path first_length second_length memory
               = Inr (None, memory)
         | Some (seq_result, seq_swap) \<Rightarrow>
             (\<exists>result min_swap.
                find_best_candidate cpu_count distances solution path first_length second_length memory
                  = Inr (Some result, add_to_tabu Swap_maxlen min_swap memory) \<and>
                min_swap \<in> set ?moves \<and>
                swap distances solution min_swap = Some result \<and>
                ps_cost result = ps_cost seq_result \<and>
                (concurrency_of cpu_count = 1 \<or>
                 (\<forall>m \<in> set ?moves. ps_cost (f m) = ps_cost seq_result \<longrightarrow> m = seq_swap)
                 \<longrightarrow> result = seq_result \<and> min_swap = seq_swap))"
  proof (cases "?moves = []")
    case True
    then have "r = None" using r(1) by (auto simp: is_min_of_def split: option.splits)
    moreover have "sequential_best f ps_cost ?moves = None"
      using True by (simp add: sequential_best_def)
    ultimately show ?thesis using r(3) by simp
  next
    case False
    obtain mb where mb: "sequential_best f ps_cost ?moves = Some (f mb, mb)"
      "is_min_of f ps_cost (set ?moves) (Some (f mb, mb))"
      using sequential_best_min [OF False] by blast
    have "r \<noteq> None" using r(1) False by (auto simp: is_min_of_def split: option.splits)
    then obtain m where m: "r = Some (f m, m)" "m \<in> set ?moves"
      using r(1) by (auto simp: is_min_of_def split: option.splits)
    have c: "ps_cost (f m) = ps_cost (f mb)"
      using is_min_of_cost [OF r(1) [unfolded m(1)] mb(2)] .
    have u: "m = mb"
      if "\<forall>m \<in> set ?moves. ps_cost (f m) = ps_cost (f mb) \<longrightarrow> m = mb"
      using that m(2) c by blast
    have o: "m = mb" if "concurrency_of cpu_count = 1"
      using r(2) that m(1) mb(1) by simp
    have fb: "find_best_candidate cpu_count distances solution path first_length second_length memory
            = Inr (Some (f m), add_to_tabu Swap_maxlen m memory)"
      unfolding r(3) m(1) by simp
    have sw: "swap distances solution m = Some (f m)" using ev m(2) by blast
    have "\<exists>result min_swap.
            find_best_candidate cpu_count distances solution path first_length second_length memory
              = Inr (Some result, add_to_tabu Swap_maxlen min_swap memory) \<and>
            min_swap \<in> set ?moves \<and>
            swap distances solution min_swap = Some result \<and>
            ps_cost result = ps_cost (f mb) \<and>
            (concurrency_of cpu_count = 1 \<or>
             (\<forall>m \<in> set ?moves. ps_cost (f m) = ps_cost (f mb) \<longrightarrow> m = mb)
             \<longrightarrow> result = f mb \<and> min_swap = mb)"
      using fb m(2) sw c u o by blast
    then show ?thesis unfolding mb(1) by simp
  qed
  from main show ?thesis unfolding f_def o_apply .
qed

theorem find_best_candidate_minimal_cost_witness:
  "list_all (\<lambda>m. swap [[0, 2, 2, 1], [2, 0, 1, 2], [2, 1, 0, 2], [1, 2, 2, 0 :: int]]
                 \<lparr>ps_after = [1, 2, 3, 0], ps_before = [3, 0, 1, 2], ps_cost = 6\<rparr> m \<noteq> None)
     (swap_moves [0, 1, 2, 3] 1 1) \<and>
   (\<exists>result min_swap.
      find_best_candidate (Some 2) [[0, 2, 2, 1], [2, 0, 1, 2], [2, 1, 0, 2], [1, 2, 2, 0 :: int]]
        \<lparr>ps_after = [1, 2, 3, 0], ps_before = [3, 0, 1, 2], ps_cost = 6\<rparr> [0, 1, 2, 3] 1 1 tabu_empty
        = Inr (Some result, add_to_tabu Swap_maxlen min_swap tabu_empty) \<and>
      ps_cost result = 6)"
proof -
  let ?D = "[[0, 2, 2, 1], [2, 0, 1, 2], [2, 1, 0, 2], [1, 2, 2, 0 :: int]]"
  let ?s = "\<lparr>ps_after = [1, 2, 3, 0], ps_before = [3, 0, 1, 2], ps_cost = 6 :: int\<rparr>"
  have h: "\<forall>m \<in> set (swap_moves [0, 1, 2, 3] 1 1). swap ?D ?s m \<noteq> None"
    by code_simp
  have seq: "sequential_best (the \<circ> swap ?D ?s) ps_cost (swap_moves [0, 1, 2, 3] 1 1)
               = Some (\<lparr>ps_after = [3, 0, 1, 2], ps_before = [1, 2, 3, 0], ps_cost = 6\<rparr>, (0, 0, 2, 2))"
    by code_simp
  have l: "list_all (\<lambda>m. swap ?D ?s m \<noteq> None) (swap_moves [0, 1, 2, 3] 1 1)"
    using h by (simp add: list_all_iff)
  from find_best_candidate_minimal_cost [OF h, of "Some 2" tabu_empty, unfolded seq option.case prod.case]
  obtain result min_swap where
    fb: "find_best_candidate (Some 2) ?D ?s [0, 1, 2, 3] 1 1 tabu_empty
           = Inr (Some result, add_to_tabu Swap_maxlen min_swap tabu_empty)" and
    c: "ps_cost result = ps_cost \<lparr>ps_after = [3, 0, 1, 2], ps_before = [1, 2, 3, 0], ps_cost = 6 :: int\<rparr>"
    by blast
  from c have "ps_cost result = 6" by simp
  with fb l show ?thesis by blast
qed

text \<open>
  The claim C2 as stated fails: on a tour of four nodes with two bundles, the moves of
  minimal cost 6 include the second and the third enumerated move; the sequential
  evaluation keeps the second (the first minimum), the reduction over two bundles returns
  the third, the first minimum of the first bundle.
\<close>

theorem find_best_candidate_sharding_counterexample:
  "map_sum id fst (find_best_candidate (Some 2)
       [[0, 2, 2, 1], [2, 0, 1, 2], [2, 1, 0, 2], [1, 2, 2, 0 :: int]]
       \<lparr>ps_after = [1, 2, 3, 0], ps_before = [3, 0, 1, 2], ps_cost = 6\<rparr>
       [0, 1, 2, 3] 1 1 tabu_empty)
     = Inr (Some \<lparr>ps_after = [3, 2, 0, 1], ps_before = [2, 3, 1, 0], ps_cost = 6\<rparr>) \<and>
   map_option fst (sequential_best
       (the \<circ> swap [[0, 2, 2, 1], [2, 0, 1, 2], [2, 1, 0, 2], [1, 2, 2, 0 :: int]]
          \<lparr>ps_after = [1, 2, 3, 0], ps_before = [3, 0, 1, 2], ps_cost = 6\<rparr>)
       ps_cost (swap_moves [0, 1, 2, 3] 1 1))
     = Some \<lparr>ps_after = [3, 0, 1, 2], ps_before = [1, 2, 3, 0], ps_cost = 6\<rparr>"
  by code_simp

subsection \<open>The single-objective driver\<close>

lemma py_min_cases: "py_min cost a b = a \<or> py_min cost a b = b"
  by (simp add: py_min_def)

lemma py_min_le:
  fixes cost :: "'s \<Rightarrow> 'c::linorder"
  shows "cost (py_min cost a b) \<le> cost a" and "cost (py_min cost a b) \<le> cost b"
  by (auto simp: py_min_def)

lemma ts_update_result:
  "ts_result (ts_update P iteration c st)
     = py_min (p_cost P) (ts_result st) (ts_current (ts_update P iteration c st))"
  by (simp add: ts_update_def Let_def)

lemma ts_shuffle_result: "ts_result (ts_shuffle P shuffle_after iteration st) = ts_result st"
  by (simp add: ts_shuffle_def)

lemma ts_shuffle_current:
  "ts_current (ts_shuffle P shuffle_after iteration st) =
     (if shuffle_after \<le> iteration - ts_last_improved st then p_shuffle P (ts_current st)
      else ts_current st)"
  by (simp add: ts_shuffle_def)

lemma ts_run_Cons_trace:
  assumes "ts_run P shuffle_after k (iteration # rest) st = (outcome, trace)" and "trace \<noteq> []"
  obtains best_candidate memory where
    "0 < k"
    "iteration mod k < length (p_get_neighborhoods P (ts_current st))"
    "(p_get_neighborhoods P (ts_current st) ! (iteration mod k)) (ts_memory st)
       = Inr (Some best_candidate, memory)"
    "trace =
       (ts_update P (int iteration) best_candidate (st\<lparr>ts_memory := memory\<rparr>),
        ts_shuffle P shuffle_after (int iteration)
          (ts_update P (int iteration) best_candidate (st\<lparr>ts_memory := memory\<rparr>)))
       # snd (ts_run P shuffle_after k rest
                (ts_shuffle P shuffle_after (int iteration)
                   (ts_update P (int iteration) best_candidate (st\<lparr>ts_memory := memory\<rparr>))))"
    "outcome = fst (ts_run P shuffle_after k rest
                (ts_shuffle P shuffle_after (int iteration)
                   (ts_update P (int iteration) best_candidate (st\<lparr>ts_memory := memory\<rparr>))))"
  using assms
  by (auto simp: Let_def split: if_splits sum.splits option.splits prod.splits)

lemma ts_run_trace:
  fixes P :: "('s, 'c::linorder, 't) problem"
  assumes "ts_run P shuffle_after k its st = (outcome, trace)" and "i < length trace"
  shows "ts_result (fst (trace ! i))
           \<in> set (ts_result st # map (ts_current \<circ> fst) (take (Suc i) trace)) \<and>
         (\<forall>s \<in> set (ts_result st # map (ts_current \<circ> fst) (take (Suc i) trace)).
            p_cost P (ts_result (fst (trace ! i))) \<le> p_cost P s) \<and>
         ts_result (snd (trace ! i)) = ts_result (fst (trace ! i)) \<and>
         (ts_current (snd (trace ! i)) = ts_current (fst (trace ! i)) \<or>
          ts_current (snd (trace ! i)) = p_shuffle P (ts_current (fst (trace ! i))))"
  using assms
proof (induction its arbitrary: st outcome trace i)
  case Nil
  then show ?case by simp
next
  case (Cons iteration rest)
  from Cons.prems have ne: "trace \<noteq> []" by auto
  from Cons.prems(1) ne obtain c memory where
    tr: "trace =
       (ts_update P (int iteration) c (st\<lparr>ts_memory := memory\<rparr>),
        ts_shuffle P shuffle_after (int iteration)
          (ts_update P (int iteration) c (st\<lparr>ts_memory := memory\<rparr>)))
       # snd (ts_run P shuffle_after k rest
                (ts_shuffle P shuffle_after (int iteration)
                   (ts_update P (int iteration) c (st\<lparr>ts_memory := memory\<rparr>))))"
    by (rule ts_run_Cons_trace)
  define u where "u = ts_update P (int iteration) c (st\<lparr>ts_memory := memory\<rparr>)"
  define e where "e = ts_shuffle P shuffle_after (int iteration) u"
  define trace' where "trace' = snd (ts_run P shuffle_after k rest e)"
  have tr': "trace = (u, e) # trace'" using tr by (simp add: u_def e_def trace'_def)
  have ru: "ts_result u = py_min (p_cost P) (ts_result st) (ts_current u)"
    unfolding u_def by (simp add: ts_update_result)
  have re: "ts_result e = ts_result u" unfolding e_def by (rule ts_shuffle_result)
  have ce: "ts_current e = ts_current u \<or> ts_current e = p_shuffle P (ts_current u)"
    unfolding e_def by (simp add: ts_shuffle_current)
  have le1: "p_cost P (ts_result u) \<le> p_cost P (ts_result st)"
    and le2: "p_cost P (ts_result u) \<le> p_cost P (ts_current u)"
    unfolding ru by (rule py_min_le)+
  have mem: "ts_result u = ts_result st \<or> ts_result u = ts_current u"
    unfolding ru by (rule py_min_cases)
  show ?case
  proof (cases i)
    case 0
    then show ?thesis using tr' re ce le1 le2 mem by auto
  next
    case (Suc j)
    then have j: "j < length trace'" using Cons.prems(2) tr' by simp
    have run: "ts_run P shuffle_after k rest e = (fst (ts_run P shuffle_after k rest e), trace')"
      by (simp add: trace'_def)
    note IH = Cons.IH [OF run j]
    have nth: "trace ! i = trace' ! j" using Suc tr' by simp
    have tk: "map (ts_current \<circ> fst) (take (Suc i) trace)
                = ts_current u # map (ts_current \<circ> fst) (take (Suc j) trace')"
      using Suc tr' by simp
    from IH have 1: "ts_result (fst (trace' ! j))
           \<in> set (ts_result e # map (ts_current \<circ> fst) (take (Suc j) trace'))"
      and 2: "\<forall>s \<in> set (ts_result e # map (ts_current \<circ> fst) (take (Suc j) trace')).
            p_cost P (ts_result (fst (trace' ! j))) \<le> p_cost P s"
      and 3: "ts_result (snd (trace' ! j)) = ts_result (fst (trace' ! j))"
      and 4: "ts_current (snd (trace' ! j)) = ts_current (fst (trace' ! j)) \<or>
          ts_current (snd (trace' ! j)) = p_shuffle P (ts_current (fst (trace' ! j)))"
      by blast+
    have a: "ts_result (fst (trace' ! j))
           \<in> set (ts_result st # ts_current u # map (ts_current \<circ> fst) (take (Suc j) trace'))"
      using 1 re mem by auto
    have "p_cost P (ts_result (fst (trace' ! j))) \<le> p_cost P (ts_result u)"
      using 2 re by simp
    then have b: "\<forall>s \<in> set (ts_result st # ts_current u # map (ts_current \<circ> fst) (take (Suc j) trace')).
            p_cost P (ts_result (fst (trace' ! j))) \<le> p_cost P s"
      using 2 le1 le2 by auto
    show ?thesis unfolding nth tk using a b 3 4 by blast
  qed
qed

lemma ts_run_final:
  assumes "ts_run P shuffle_after k its st = (Inr st', trace)"
  shows "ts_result st' = (if trace = [] then ts_result st else ts_result (snd (last trace)))"
  using assms
proof (induction its arbitrary: st trace)
  case Nil
  then show ?case by simp
next
  case (Cons iteration rest)
  show ?case
  proof (cases "trace = []")
    case True
    then show ?thesis using Cons.prems
      by (auto simp: Let_def split: if_splits sum.splits option.splits prod.splits)
  next
    case False
    from Cons.prems False obtain c memory where
      tr: "trace =
         (ts_update P (int iteration) c (st\<lparr>ts_memory := memory\<rparr>),
          ts_shuffle P shuffle_after (int iteration)
            (ts_update P (int iteration) c (st\<lparr>ts_memory := memory\<rparr>)))
         # snd (ts_run P shuffle_after k rest
                  (ts_shuffle P shuffle_after (int iteration)
                     (ts_update P (int iteration) c (st\<lparr>ts_memory := memory\<rparr>))))"
      and out: "Inr st' = fst (ts_run P shuffle_after k rest
                  (ts_shuffle P shuffle_after (int iteration)
                     (ts_update P (int iteration) c (st\<lparr>ts_memory := memory\<rparr>))))"
      by (rule ts_run_Cons_trace)
    define e where "e = ts_shuffle P shuffle_after (int iteration)
                     (ts_update P (int iteration) c (st\<lparr>ts_memory := memory\<rparr>))"
    have run: "ts_run P shuffle_after k rest e = (Inr st', snd (ts_run P shuffle_after k rest e))"
      using out by (simp add: e_def prod_eq_iff)
    from Cons.IH [OF run] tr show ?thesis by (simp add: e_def)
  qed
qed


lemma ts_run_starved:
  assumes "ts_run P shuffle_after k its1 st = (Inr st1, trace1)" and "length trace1 = length its1"
    and "0 < k" and "iteration mod k < length (p_get_neighborhoods P (ts_current st1))"
    and "(p_get_neighborhoods P (ts_current st1) ! (iteration mod k)) (ts_memory st1) = Inr (None, memory')"
  shows "ts_run P shuffle_after k (its1 @ iteration # rest) st = (Inr (st1\<lparr>ts_memory := memory'\<rparr>), trace1)"
  using assms(1,2)
proof (induction its1 arbitrary: st trace1)
  case Nil
  then show ?case using assms(3-5) by (simp add: Let_def)
next
  case (Cons it its1)
  from Cons.prems(2) have ne: "trace1 \<noteq> []" by auto
  from Cons.prems(1) ne obtain c memory where
    k: "0 < k" "it mod k < length (p_get_neighborhoods P (ts_current st))" and
    nb: "(p_get_neighborhoods P (ts_current st) ! (it mod k)) (ts_memory st) = Inr (Some c, memory)" and
    tr: "trace1 =
       (ts_update P (int it) c (st\<lparr>ts_memory := memory\<rparr>),
        ts_shuffle P shuffle_after (int it)
          (ts_update P (int it) c (st\<lparr>ts_memory := memory\<rparr>)))
       # snd (ts_run P shuffle_after k its1
                (ts_shuffle P shuffle_after (int it)
                   (ts_update P (int it) c (st\<lparr>ts_memory := memory\<rparr>))))" and
    out: "Inr st1 = fst (ts_run P shuffle_after k its1
                (ts_shuffle P shuffle_after (int it)
                   (ts_update P (int it) c (st\<lparr>ts_memory := memory\<rparr>))))"
    by (rule ts_run_Cons_trace)
  define e where "e = ts_shuffle P shuffle_after (int it)
                   (ts_update P (int it) c (st\<lparr>ts_memory := memory\<rparr>))"
  define trace' where "trace' = snd (ts_run P shuffle_after k its1 e)"
  have run: "ts_run P shuffle_after k its1 e = (Inr st1, trace')"
    using out by (simp add: e_def trace'_def prod_eq_iff)
  have len: "length trace' = length its1" using Cons.prems(2) tr by (simp add: e_def trace'_def)
  have "ts_run P shuffle_after k (its1 @ iteration # rest) e = (Inr (st1\<lparr>ts_memory := memory'\<rparr>), trace')"
    by (rule Cons.IH [OF run len])
  then show ?case using k nb tr by (simp add: Let_def e_def trace'_def)
qed

lemma find_best_candidate_no_moves:
  fixes distances :: "'c::linordered_ab_group_add list list"
  assumes "swap_moves path first_length second_length = []"
  shows "find_best_candidate cpu_count distances solution path first_length second_length memory
           = Inr (None, memory)"
proof -
  have "\<forall>m \<in> set (swap_moves path first_length second_length). swap distances solution m \<noteq> None"
    using assms by simp
  from find_best_candidate_reduce [OF this, of cpu_count memory]
  obtain r where r: "is_min_of (the \<circ> swap distances solution) ps_cost
                (set (swap_moves path first_length second_length)) r"
    "find_best_candidate cpu_count distances solution path first_length second_length memory =
               (case r of None \<Rightarrow> Inr (None, memory)
                | Some (result, min_swap) \<Rightarrow>
                    Inr (Some result, add_to_tabu Swap_maxlen min_swap memory))"
    by blast
  from r(1) assms have "r = None" by (auto simp: is_min_of_def split: option.splits)
  with r(2) show ?thesis by simp
qed

text \<open>
  C4 (amended). In a run of \<open>tabu_search\<close>, after every completed iteration: \<open>result\<close> is
  one of the initial solution and the values \<open>current\<close> held at line 81 of this and the
  earlier iterations, and its cost is minimal among them (so the cost of \<open>result\<close> is at
  most the cost of \<open>current\<close> at line 81); the shuffle of lines 83-84 leaves \<open>result\<close> as
  it is, whether or not it replaces \<open>current\<close>; and when the loop ends without an exception
  the value returned is \<open>post_optimization\<close> of the \<open>result\<close> of the last completed
  iteration (of the initial solution when there is none).
\<close>

theorem tabu_search_remembers_best:
  fixes P :: "('s, 'c::linorder, 't) problem"
  assumes "ts_run P shuffle_after (length (p_get_neighborhoods P (p_initial P)))
             [0..<iterations_count] (ts_init P memory) = (outcome, trace)"
  shows "(\<forall>i < length trace.
            ts_result (fst (trace ! i))
              \<in> set (p_initial P # map (ts_current \<circ> fst) (take (Suc i) trace)) \<and>
            (\<forall>s \<in> set (p_initial P # map (ts_current \<circ> fst) (take (Suc i) trace)).
               p_cost P (ts_result (fst (trace ! i))) \<le> p_cost P s) \<and>
            ts_result (snd (trace ! i)) = ts_result (fst (trace ! i)) \<and>
            (ts_current (snd (trace ! i)) = ts_current (fst (trace ! i)) \<or>
             ts_current (snd (trace ! i)) = p_shuffle P (ts_current (fst (trace ! i))))) \<and>
         (\<forall>st. outcome = Inr st \<longrightarrow>
            ts_result st = (if trace = [] then p_initial P else ts_result (snd (last trace))) \<and>
            tabu_search P iterations_count shuffle_after memory
              = Inr (p_post_optimization P (ts_result st)))"
proof -
  have init: "ts_result (ts_init P memory) = p_initial P" by (simp add: ts_init_def)
  have 1: "\<forall>i < length trace.
            ts_result (fst (trace ! i))
              \<in> set (p_initial P # map (ts_current \<circ> fst) (take (Suc i) trace)) \<and>
            (\<forall>s \<in> set (p_initial P # map (ts_current \<circ> fst) (take (Suc i) trace)).
               p_cost P (ts_result (fst (trace ! i))) \<le> p_cost P s) \<and>
            ts_result (snd (trace ! i)) = ts_result (fst (trace ! i)) \<and>
            (ts_current (snd (trace ! i)) = ts_current (fst (trace ! i)) \<or>
             ts_current (snd (trace ! i)) = p_shuffle P (ts_current (fst (trace ! i))))"
    using ts_run_trace [OF assms] unfolding init by blast
  have 2: "ts_result st = (if trace = [] then p_initial P else ts_result (snd (last trace))) \<and>
            tabu_search P iterations_count shuffle_after memory
              = Inr (p_post_optimization P (ts_result st))" if "outcome = Inr st" for st
    using ts_run_final [OF assms [unfolded that]] assms that
    by (simp add: init tabu_search_def)
  from 1 2 show ?thesis by blast
qed

text \<open>
  C8. A Swap neighborhood that enumerates no move returns no candidate, without an
  exception and without touching the tabu memory. When the neighborhood asked in some
  iteration returns no candidate, after any number of completed iterations, the loop of
  the driver ends there with \<open>result\<close> as it stood, and \<open>tabu_search\<close> returns
  \<open>post_optimization\<close> of the \<open>result\<close> of the ended loop rather than an exception.
\<close>

theorem no_candidate_ends_search:
  fixes distances :: "'c::linordered_ab_group_add list list"
    and P :: "('s, 'd::ord, 't) problem"
  shows "(swap_moves path first_length second_length = [] \<longrightarrow>
            find_best_candidate cpu_count distances solution path first_length second_length memory
              = Inr (None, memory)) \<and>
         (ts_run P shuffle_after k its1 st = (Inr st1, trace1) \<and> length trace1 = length its1 \<and>
          0 < k \<and> iteration mod k < length (p_get_neighborhoods P (ts_current st1)) \<and>
          (p_get_neighborhoods P (ts_current st1) ! (iteration mod k)) (ts_memory st1)
             = Inr (None, memory')
          \<longrightarrow> ts_run P shuffle_after k (its1 @ iteration # rest) st
                = (Inr (st1\<lparr>ts_memory := memory'\<rparr>), trace1)) \<and>
         (fst (ts_run P shuffle_after (length (p_get_neighborhoods P (p_initial P)))
                 [0..<iterations_count] (ts_init P memory0)) = Inr st'
          \<longrightarrow> tabu_search P iterations_count shuffle_after memory0
                = Inr (p_post_optimization P (ts_result st')))"
  using find_best_candidate_no_moves [of path first_length second_length cpu_count distances solution memory]
    ts_run_starved [of P shuffle_after k its1 st st1 trace1 iteration memory' rest]
  by (simp add: tabu_search_def)


theorem tabu_search_remembers_best_witness:
  "fst (ts_run
     \<lparr>p_cost = (\<lambda>s :: int. s), p_initial = 5,
      p_get_neighborhoods = (\<lambda>s. [\<lambda>m :: unit. Inr (Some (s - 1), m)]),
      p_shuffle = (\<lambda>s. s + 10), p_post_optimization = (\<lambda>s. s)\<rparr>
     1 1 [0..<2]
     (ts_init \<lparr>p_cost = (\<lambda>s :: int. s), p_initial = 5,
      p_get_neighborhoods = (\<lambda>s. [\<lambda>m :: unit. Inr (Some (s - 1), m)]),
      p_shuffle = (\<lambda>s. s + 10), p_post_optimization = (\<lambda>s. s)\<rparr> ()))
     = Inr \<lparr>ts_result = 3, ts_current = 3, ts_last_improved = 1, ts_memory = ()\<rparr> \<and>
   tabu_search
     \<lparr>p_cost = (\<lambda>s :: int. s), p_initial = 5,
      p_get_neighborhoods = (\<lambda>s. [\<lambda>m :: unit. Inr (Some (s - 1), m)]),
      p_shuffle = (\<lambda>s. s + 10), p_post_optimization = (\<lambda>s. s)\<rparr> 2 1 () = Inr 3"
proof -
  let ?P = "\<lparr>p_cost = (\<lambda>s :: int. s), p_initial = 5,
      p_get_neighborhoods = (\<lambda>s. [\<lambda>m :: unit. Inr (Some (s - 1), m)]),
      p_shuffle = (\<lambda>s. s + 10), p_post_optimization = (\<lambda>s. s)\<rparr>"
  have run: "ts_run ?P 1 (length (p_get_neighborhoods ?P (p_initial ?P))) [0..<2] (ts_init ?P ())
      = (Inr \<lparr>ts_result = 3, ts_current = 3, ts_last_improved = 1, ts_memory = ()\<rparr>,
         [(\<lparr>ts_result = 4, ts_current = 4, ts_last_improved = 0, ts_memory = ()\<rparr>,
           \<lparr>ts_result = 4, ts_current = 4, ts_last_improved = 0, ts_memory = ()\<rparr>),
          (\<lparr>ts_result = 3, ts_current = 3, ts_last_improved = 1, ts_memory = ()\<rparr>,
           \<lparr>ts_result = 3, ts_current = 3, ts_last_improved = 1, ts_memory = ()\<rparr>)])"
    by (simp add: ts_init_def ts_update_def ts_shuffle_def py_min_def upt_rec Let_def)
  from tabu_search_remembers_best [OF run]
  have "tabu_search ?P 2 1 () = Inr (p_post_optimization ?P 3)" by simp
  moreover have "fst (ts_run ?P 1 1 [0..<2] (ts_init ?P ()))
      = Inr \<lparr>ts_result = 3, ts_current = 3, ts_last_improved = 1, ts_memory = ()\<rparr>"
    using run by simp
  ultimately show ?thesis by simp
qed

text \<open>
  The claim C4 as stated fails where \<open>shuffle\<close> returns a solution of smaller cost: after
  the single iteration below \<open>current\<close> is the shuffled solution of cost 3, \<open>result\<close> is
  still the initial solution of cost 5, and that is what \<open>tabu_search\<close> returns.
\<close>

theorem tabu_search_shuffle_counterexample:
  "fst (ts_run
     \<lparr>p_cost = (\<lambda>s :: int. s), p_initial = 5,
      p_get_neighborhoods = (\<lambda>s. [\<lambda>m :: unit. Inr (Some (s + 1), m)]),
      p_shuffle = (\<lambda>s. s - 2), p_post_optimization = (\<lambda>s. s)\<rparr>
     0 1 [0..<1]
     (ts_init \<lparr>p_cost = (\<lambda>s :: int. s), p_initial = 5,
      p_get_neighborhoods = (\<lambda>s. [\<lambda>m :: unit. Inr (Some (s + 1), m)]),
      p_shuffle = (\<lambda>s. s - 2), p_post_optimization = (\<lambda>s. s)\<rparr> ()))
     = Inr \<lparr>ts_result = 5, ts_current = 3, ts_last_improved = 0, ts_memory = ()\<rparr> \<and>
   \<not> (5 :: int) \<le> 3 \<and>
   tabu_search
     \<lparr>p_cost = (\<lambda>s :: int. s), p_initial = 5,
      p_get_neighborhoods = (\<lambda>s. [\<lambda>m :: unit. Inr (Some (s + 1), m)]),
      p_shuffle = (\<lambda>s. s - 2), p_post_optimization = (\<lambda>s. s)\<rparr> 1 0 () = Inr 5"
  by (simp add: tabu_search_def ts_init_def ts_update_def ts_shuffle_def py_min_def Let_def)

theorem no_candidate_ends_search_witness:
  "swap_moves [0, 1] 2 1 = [] \<and>
   find_best_candidate (Some 4) [[0, 1], [1, 0 :: int]]
     \<lparr>ps_after = [1, 0], ps_before = [1, 0], ps_cost = 2\<rparr> [0, 1] 2 1 tabu_empty
     = Inr (None, tabu_empty) \<and>
   tabu_search
     \<lparr>p_cost = ps_cost,
      p_initial = \<lparr>ps_after = [1, 0], ps_before = [1, 0], ps_cost = 2 :: int\<rparr>,
      p_get_neighborhoods = (\<lambda>s. [find_best_candidate (Some 4) [[0, 1], [1, 0]] s [0, 1] 2 1]),
      p_shuffle = (\<lambda>s. s), p_post_optimization = (\<lambda>s. s)\<rparr> 5 50 tabu_empty
     = Inr \<lparr>ps_after = [1, 0], ps_before = [1, 0], ps_cost = 2\<rparr>"
proof -
  let ?D = "[[0, 1], [1, 0 :: int]]"
  let ?s = "\<lparr>ps_after = [1, 0], ps_before = [1, 0], ps_cost = 2 :: int\<rparr>"
  let ?P = "\<lparr>p_cost = ps_cost, p_initial = ?s,
      p_get_neighborhoods = (\<lambda>s. [find_best_candidate (Some 4) ?D s [0, 1] 2 1]),
      p_shuffle = (\<lambda>s. s), p_post_optimization = (\<lambda>s. s)\<rparr>"
  have e: "swap_moves [0, 1] 2 1 = []" by code_simp
  note t = no_candidate_ends_search [of "[0, 1]" 2 1 "Some 4" ?D ?s tabu_empty
      ?P 50 1 "[]" "ts_init ?P tabu_empty" "ts_init ?P tabu_empty" "[]" 0 tabu_empty "[1..<5]"
      5 tabu_empty "ts_init ?P tabu_empty"]
  from t e have f: "find_best_candidate (Some 4) ?D ?s [0, 1] 2 1 tabu_empty = Inr (None, tabu_empty)"
    by blast
  have "(p_get_neighborhoods ?P (ts_current (ts_init ?P tabu_empty)) ! (0 mod 1))
          (ts_memory (ts_init ?P tabu_empty)) = Inr (None, tabu_empty)"
    using f by (simp add: ts_init_def)
  with t have r: "ts_run ?P 50 1 ([] @ 0 # [1..<5]) (ts_init ?P tabu_empty)
                = (Inr ((ts_init ?P tabu_empty)\<lparr>ts_memory := tabu_empty\<rparr>), [])"
    by simp
  have "[0..<5] = [] @ 0 # [1..<5]" by (simp add: upt_rec)
  with r have "fst (ts_run ?P 50 (length (p_get_neighborhoods ?P (p_initial ?P))) [0..<5]
                  (ts_init ?P tabu_empty)) = Inr (ts_init ?P tabu_empty)"
    by (simp add: ts_init_def)
  with t have "tabu_search ?P 5 50 tabu_empty
                 = Inr (p_post_optimization ?P (ts_result (ts_init ?P tabu_empty)))"
    by blast
  then have "tabu_search ?P 5 50 tabu_empty = Inr ?s" by (simp add: ts_init_def)
  with e f show ?thesis by blast
qed

subsection \<open>The incremental cost of Swap.swap\<close>

lemma recomputed_cost_update:
  fixes distances :: "'c::ab_group_add list list"
  assumes "i < length after"
  shows "recomputed_cost distances (after[i := v])
           = recomputed_cost distances after - distances ! i ! (after ! i) + distances ! i ! v"
proof -
  let ?n = "length after"
  let ?f = "\<lambda>j. distances ! j ! (after ! j)"
  let ?g = "\<lambda>j. distances ! j ! (after[i := v] ! j)"
  have f: "recomputed_cost distances after = sum ?f {0..<?n}"
    unfolding recomputed_cost_def by (simp add: sum_list_distinct_conv_sum_set)
  have g: "recomputed_cost distances (after[i := v]) = sum ?g {0..<?n}"
    unfolding recomputed_cost_def by (simp add: sum_list_distinct_conv_sum_set)
  have i: "i \<in> {0..<?n}" using assms by simp
  have "sum ?f {0..<?n} = ?f i + sum ?f ({0..<?n} - {i})" using i by (simp add: sum.remove)
  moreover have "sum ?g {0..<?n} = ?g i + sum ?g ({0..<?n} - {i})" using i by (simp add: sum.remove)
  moreover have "sum ?g ({0..<?n} - {i}) = sum ?f ({0..<?n} - {i})"
    by (rule sum.cong) auto
  moreover have "?g i = distances ! i ! v" using assms by simp
  ultimately show ?thesis unfolding f g by (simp add: algebra_simps)
qed


lemma py_get_Some: "i < length xs \<Longrightarrow> py_get xs i = Some (xs ! i)"
  by (simp add: py_get_def)

lemma py_set_Some: "i < length xs \<Longrightarrow> py_set xs i v = Some (xs[i := v])"
  by (simp add: py_set_def)

lemma dist_Some: "square_table distances n \<Longrightarrow> i < n \<Longrightarrow> j < n \<Longrightarrow> dist distances i j = Some (distances ! i ! j)"
  by (simp add: dist_def py_get_def square_table_def)

text \<open>
  Where the linkage is a valid one, the four nodes of the move are nodes, the two
  segments differ in their heads and in their tails, neither segment is the whole tour
  and the segments are not adjacent at both ends, the cost that \<open>swap\<close> returns is the
  cost recomputed from the linkage it returns: the 3-edge and the 4-edge formula are
  right in each of the cases they are written for.
\<close>

lemma swap_cost_separate:
  fixes distances :: "'c::ab_group_add list list"
  assumes link: "valid_linkage after before"
    and sq: "square_table distances (length after)"
    and rng: "fh < length after" "ft < length after" "sh < length after" "st < length after"
    and ne: "fh \<noteq> sh" "ft \<noteq> st" "after ! ft \<noteq> fh" "after ! st \<noteq> sh"
      "\<not> (after ! st = fh \<and> after ! ft = sh)"
    and cost: "cost = recomputed_cost distances after"
  shows "\<exists>s'. swap distances \<lparr>ps_after = after, ps_before = before, ps_cost = cost\<rparr> (fh, ft, sh, st) = Some s' \<and>
              ps_cost s' = recomputed_cost distances (ps_after s')"
proof -
  let ?n = "length after"
  have lb: "length before = ?n" using link by (simp add: valid_linkage_def)
  have inv: "\<And>i. i < ?n \<Longrightarrow> after ! i < ?n" "\<And>i. i < ?n \<Longrightarrow> before ! (after ! i) = i"
    "\<And>i. i < ?n \<Longrightarrow> before ! i < ?n" "\<And>i. i < ?n \<Longrightarrow> after ! (before ! i) = i"
    using link by (simp_all add: valid_linkage_def)
  define bf where "bf = before ! fh"
  define bs where "bs = before ! sh"
  define af where "af = after ! ft"
  define as where "as = after ! st"
  have r: "bf < ?n" "bs < ?n" "af < ?n" "as < ?n"
    using rng inv by (simp_all add: bf_def bs_def af_def as_def)
  have abf: "after ! bf = fh" and abs: "after ! bs = sh"
    using rng inv(4) by (simp_all add: bf_def bs_def)
  note D = dist_Some [OF sq]
  show ?thesis
  proof (cases "fh = after ! st")
    case A: True
    have bfh: "before ! fh = st" using A inv(2) rng(4) by simp
    have d1: "bs \<noteq> ft" using ne(5) A abs by auto
    have d2: "bs \<noteq> st" using ne(4) abs by auto
    let ?after = "after[bs := fh, ft := sh, st := af]"
    let ?before = "before[fh := bs, sh := ft, af := st]"
    let ?cost = "cost + distances ! bs ! fh + distances ! ft ! sh + distances ! st ! af
                   - distances ! bs ! sh - distances ! st ! fh - distances ! ft ! af"
    have sw: "swap distances \<lparr>ps_after = after, ps_before = before, ps_cost = cost\<rparr> (fh, ft, sh, st)
                = Some \<lparr>ps_after = ?after, ps_before = ?before, ps_cost = ?cost\<rparr>"
      using A bfh rng r lb
      by (simp add: swap_def py_get_Some py_set_Some D Let_def
            bs_def [symmetric] af_def [symmetric])
    have "recomputed_cost distances ?after
            = recomputed_cost distances after - distances ! bs ! sh + distances ! bs ! fh
                - distances ! ft ! af + distances ! ft ! sh
                - distances ! st ! fh + distances ! st ! af"
      using r rng d1 d2 ne(2) abs A
      by (simp add: recomputed_cost_update af_def)
    then have "?cost = recomputed_cost distances ?after"
      unfolding cost by (simp add: algebra_simps)
    with sw show ?thesis by simp
  next
    case nA: False
    have d0: "bf \<noteq> st" using nA abf by auto
    show ?thesis
    proof (cases "ft = before ! sh")
      case B: True
      have aft: "after ! ft = sh" using B inv(4) rng(3) by simp
      have d1: "bf \<noteq> ft" using ne(1) abf aft by auto
      let ?after = "after[bf := sh, st := fh, ft := as]"
      let ?before = "before[sh := bf, fh := st, as := ft]"
      let ?cost = "cost + distances ! bf ! sh + distances ! st ! fh + distances ! ft ! as
                     - distances ! bf ! fh - distances ! ft ! sh - distances ! st ! as"
      have sw: "swap distances \<lparr>ps_after = after, ps_before = before, ps_cost = cost\<rparr> (fh, ft, sh, st)
                  = Some \<lparr>ps_after = ?after, ps_before = ?before, ps_cost = ?cost\<rparr>"
        using nA B rng r lb
        by (simp add: swap_def py_get_Some py_set_Some D Let_def
              bf_def [symmetric] as_def [symmetric])
      have "recomputed_cost distances ?after
              = recomputed_cost distances after - distances ! bf ! fh + distances ! bf ! sh
                  - distances ! st ! as + distances ! st ! fh
                  - distances ! ft ! sh + distances ! ft ! as"
        using r rng d0 d1 ne(2) abf aft
        by (simp add: recomputed_cost_update as_def)
      then have "?cost = recomputed_cost distances ?after"
        unfolding cost by (simp add: algebra_simps)
      with sw show ?thesis by simp
    next
      case nB: False
      have aft: "after ! ft \<noteq> sh" using nB inv(2) rng(2) by auto
      have d1: "bf \<noteq> bs" using ne(1) abf abs by auto
      have d2: "bs \<noteq> st" using ne(4) abs by auto
      have d3: "bf \<noteq> ft" using ne(3) abf by auto
      have d4: "bs \<noteq> ft" using aft abs by auto
      let ?after = "after[bf := sh, bs := fh, st := af, ft := as]"
      let ?before = "before[sh := bf, fh := bs, af := st, as := ft]"
      let ?cost = "cost + distances ! bf ! sh + distances ! st ! af
                     + distances ! bs ! fh + distances ! ft ! as
                     - distances ! bf ! fh - distances ! ft ! af
                     - distances ! bs ! sh - distances ! st ! as"
      have sw: "swap distances \<lparr>ps_after = after, ps_before = before, ps_cost = cost\<rparr> (fh, ft, sh, st)
                  = Some \<lparr>ps_after = ?after, ps_before = ?before, ps_cost = ?cost\<rparr>"
        using nA nB rng r lb
        by (simp add: swap_def py_get_Some py_set_Some D Let_def
              bf_def [symmetric] bs_def [symmetric] af_def [symmetric] as_def [symmetric])
      have "recomputed_cost distances ?after
              = recomputed_cost distances after - distances ! bf ! fh + distances ! bf ! sh
                  - distances ! bs ! sh + distances ! bs ! fh
                  - distances ! st ! as + distances ! st ! af
                  - distances ! ft ! af + distances ! ft ! as"
        using r rng d0 d1 d2 d3 d4 ne(2) abf abs
        by (simp add: recomputed_cost_update as_def af_def)
      then have "?cost = recomputed_cost distances ?after"
        unfolding cost by (simp add: algebra_simps)
      with sw show ?thesis by simp
    qed
  qed
qed

text \<open>
  C1 fails on the code where the two segments make up the whole tour, a move that the
  enumeration of \<open>find_best_candidate\<close> produces (its range of separations is not empty
  when the lengths add up to the dimension). On the four-node instance of the
  specification, with the tour 0-1-2-3 of cost 14 and both segments of length 2, the move
  (0, 1, 2, 3) is enumerated; \<open>swap\<close> returns the cost 14 with a linkage in which the
  nodes 1 and 3 both have the successor 2, and the recomputation from that linkage gives
  17.
\<close>

theorem swap_whole_tour_cost_mismatch:
  "(0, 1, 2, 3) \<in> set (swap_moves [0, 1, 2, 3] 2 2) \<and>
   recomputed_cost [[0, 1, 2, 3], [1, 0, 4, 5], [2, 4, 0, 6], [3, 5, 6, 0 :: int]] [1, 2, 3, 0] = 14 \<and>
   swap [[0, 1, 2, 3], [1, 0, 4, 5], [2, 4, 0, 6], [3, 5, 6, 0 :: int]]
     \<lparr>ps_after = [1, 2, 3, 0], ps_before = [3, 0, 1, 2], ps_cost = 14\<rparr> (0, 1, 2, 3)
     = Some \<lparr>ps_after = [1, 2, 3, 2], ps_before = [1, 0, 3, 2], ps_cost = 14\<rparr> \<and>
   recomputed_cost [[0, 1, 2, 3], [1, 0, 4, 5], [2, 4, 0, 6], [3, 5, 6, 0 :: int]] [1, 2, 3, 2] = 17"
  by code_simp

subsection \<open>The multi-objective driver\<close>

text \<open>
  C3 fails on the code: the check of the number of objectives (lines 86-88) does not
  look at \<open>plot_pareto_front\<close>. Called without plotting on a problem whose cost has three
  objectives, \<open>tabu_search\<close> raises the ValueError whose message speaks of the plot.
\<close>

theorem mo_tabu_search_arity_check_unconditional:
  "mo_tabu_search (P\<lparr>mo_cost := (\<lambda>s. [c1, c2, c3])\<rparr>) iterations_count propagation_predicate
      shuffle_after max_propagation False
     = Inl (ValueError ''Cannot plot the Pareto front when the number of objectives is not 2'')"
  by (simp add: mo_tabu_search_def)

text \<open>
  C7 (amended). In an iteration of \<open>MultiObjectiveSolution.tabu_search\<close> that completes,
  \<open>last_improved\<close> is set to the iteration exactly when at least one candidate was staged
  (the list \<open>propagate\<close> is not empty) and keeps its value otherwise; in particular it is
  set whenever \<open>current\<close> grew. After the size bound of lines 110-115, \<open>current\<close> is
  replaced by the shuffles of its members exactly when the iteration minus
  \<open>last_improved\<close> has reached \<open>shuffle_after\<close>.
\<close>

theorem mo_iteration_stagnation:
  assumes "mo_iteration P propagation_predicate shuffle_after max_propagation st iteration = Inr st'"
    and "mo_stage (mo_add_to_pareto_set P) propagation_predicate
           (mo_candidates P iteration (mo_current st)) (mo_results st) = (propagate, results)"
  shows "(propagate \<noteq> [] \<longrightarrow> mo_last_improved st' = int iteration) \<and>
         (propagate = [] \<longrightarrow> mo_last_improved st' = mo_last_improved st) \<and>
         (mo_current st \<subset> mo_current st \<union> set propagate \<longrightarrow> mo_last_improved st' = int iteration) \<and>
         (\<exists>bounded. mo_trim P max_propagation results (mo_current st \<union> set propagate) = Inr bounded \<and>
            mo_current st' =
              (if shuffle_after \<le> int iteration - mo_last_improved st'
               then mo_shuffle P ` bounded else bounded))"
proof -
  let ?li = "if propagate = [] then mo_last_improved st else int iteration"
  from assms obtain bounded where
    b: "mo_trim P max_propagation results (mo_current st \<union> set propagate) = Inr bounded" and
    st': "st' = \<lparr>mo_results = results,
                  mo_current = (if shuffle_after \<le> int iteration - ?li
                                then mo_shuffle P ` bounded else bounded),
                  mo_last_improved = ?li\<rparr>"
    by (auto simp: mo_iteration_def Let_def split: sum.splits)
  have li: "mo_last_improved st' = ?li" using st' by simp
  have "propagate \<noteq> []" if "mo_current st \<subset> mo_current st \<union> set propagate"
    using that by auto
  then show ?thesis using b st' li by auto
qed

theorem mo_iteration_stagnation_witness:
  "mo_iteration
     \<lparr>mo_cost = (\<lambda>s :: int list. s), mo_initial = [1, 5],
      mo_candidates = (\<lambda>iteration current. [[0, 7]]),
      mo_add_to_pareto_set = add_to_pareto_set (\<lambda>s. s),
      mo_sample = (\<lambda>current n. {}), mo_shuffle = (\<lambda>s. s), mo_post_optimization = (\<lambda>s. s)\<rparr>
     accept_all 50 Unbounded
     \<lparr>mo_results = {[1, 5]}, mo_current = {[1, 5]}, mo_last_improved = 0\<rparr> 1
     = Inr \<lparr>mo_results = {[0, 7], [1, 5]}, mo_current = {[1, 5], [0, 7]}, mo_last_improved = 1\<rparr>"
proof -
  let ?P = "\<lparr>mo_cost = (\<lambda>s :: int list. s), mo_initial = [1, 5],
      mo_candidates = (\<lambda>iteration current. [[0, 7]]),
      mo_add_to_pareto_set = add_to_pareto_set (\<lambda>s. s),
      mo_sample = (\<lambda>current n. {}), mo_shuffle = (\<lambda>s. s), mo_post_optimization = (\<lambda>s. s)\<rparr>"
  let ?st = "\<lparr>mo_results = {[1, 5 :: int]}, mo_current = {[1, 5]}, mo_last_improved = 0\<rparr>"
  have stage: "mo_stage (mo_add_to_pareto_set ?P) accept_all
           (mo_candidates ?P 1 (mo_current ?st)) (mo_results ?st) = ([[0, 7]], {[0, 7], [1, 5]})"
    by code_simp
  have it: "mo_iteration ?P accept_all 50 Unbounded ?st 1
     = Inr \<lparr>mo_results = {[0, 7], [1, 5]}, mo_current = {[1, 5], [0, 7]}, mo_last_improved = 1\<rparr>"
    by code_simp
  from mo_iteration_stagnation [OF it stage] it show ?thesis by simp
qed

text \<open>
  The claim C7 as stated fails when every staged candidate is in \<open>current\<close> already: below
  the only candidate of iteration 1 equals the only member of \<open>current\<close>; it is staged,
  \<open>current\<close> does not grow, and \<open>last_improved\<close> goes from 0 to 1.
\<close>

theorem mo_iteration_reset_without_growth_counterexample:
  "mo_iteration
     \<lparr>mo_cost = (\<lambda>s :: int list. s), mo_initial = [1, 5],
      mo_candidates = (\<lambda>iteration current. [[1, 5]]),
      mo_add_to_pareto_set = add_to_pareto_set (\<lambda>s. s),
      mo_sample = (\<lambda>current n. {}), mo_shuffle = (\<lambda>s. s), mo_post_optimization = (\<lambda>s. s)\<rparr>
     accept_all 50 Unbounded
     \<lparr>mo_results = {[1, 5]}, mo_current = {[1, 5]}, mo_last_improved = 0\<rparr> 1
     = Inr \<lparr>mo_results = {[1, 5]}, mo_current = {[1, 5]}, mo_last_improved = 1\<rparr>"
  by code_simp

subsection \<open>Importing a problem\<close>

text \<open>
  C6 (amended). When \<open>import_problem\<close> fails after the configuration is imported, the
  exception is \<open>ImportException(problem)\<close>, whose message names the identifier
  (\<open>import_exception_message\<close>). When the file cannot be opened or read, the class-level
  problem state is as before the call. When the failure comes later, \<open>problem\<close> is set to
  the new identifier and each of \<open>customers_count\<close>, \<open>drones_count\<close>, \<open>technicians_count\<close>
  and \<open>drones_flight_duration\<close> whose header was read before the failing one has its new
  value, while \<open>x\<close>, \<open>y\<close>, \<open>demands\<close>, \<open>dronable\<close>, the service times and \<open>energy_mode\<close>
  are as before the call.
\<close>

theorem import_problem_failure:
  assumes "import_problem files config_ok problem energy_mode cls = (Some e, cls')"
    and "d2d_config_imported cls \<or> config_ok"
  shows "e = ImportException problem \<and>
         (files (problem_path problem) = None \<longrightarrow> cls' = cls\<lparr>d2d_config_imported := True\<rparr>) \<and>
         (\<forall>data. files (problem_path problem) = Some data \<longrightarrow>
            d2d_problem cls' = Some problem \<and>
            d2d_customers_count cls' =
              (if file_customers data = None then d2d_customers_count cls else file_customers data) \<and>
            d2d_drones_count cls' =
              (if file_customers data = None \<or> file_number_drone data = None
               then d2d_drones_count cls else file_number_drone data) \<and>
            d2d_technicians_count cls' =
              (if file_customers data = None \<or> file_number_drone data = None
               then d2d_technicians_count cls else file_number_drone data) \<and>
            d2d_drones_flight_duration cls' =
              (if file_customers data = None \<or> file_number_drone data = None \<or>
                  file_flight_time data = None
               then d2d_drones_flight_duration cls else map_option real (file_flight_time data)) \<and>
            d2d_x cls' = d2d_x cls \<and> d2d_y cls' = d2d_y cls \<and>
            d2d_demands cls' = d2d_demands cls \<and> d2d_dronable cls' = d2d_dronable cls \<and>
            d2d_technician_service_time cls' = d2d_technician_service_time cls \<and>
            d2d_drone_service_time cls' = d2d_drone_service_time cls \<and>
            d2d_energy_mode cls' = d2d_energy_mode cls)"
proof -
  have ok: "\<not> (\<not> d2d_config_imported cls \<and> \<not> config_ok)" using assms(2) by blast
  note run = assms(1) [unfolded import_problem_def Let_def, simplified ok if_False]
  show ?thesis
  proof (cases "files (problem_path problem)")
    case None
    with run show ?thesis by simp
  next
    case f: (Some data)
    show ?thesis
    proof (cases "file_customers data")
      case None
      with run f show ?thesis by auto
    next
      case c: (Some customers)
      show ?thesis
      proof (cases "file_number_drone data")
        case None
        with run f c show ?thesis by auto
      next
        case d: (Some number_drone)
        show ?thesis
        proof (cases "file_flight_time data")
          case None
          with run f c d show ?thesis by auto
        next
          case t: (Some flight_time)
          show ?thesis
          proof (cases "read_rows (file_rows data) ([0], [0], [0], [True], [0], [0])")
            case None
            with run f c d t show ?thesis by auto
          next
            case (Some rows)
            with run f c d t show ?thesis by (simp split: prod.splits)
          qed
        qed
      qed
    qed
  qed
qed

theorem import_problem_failure_witness:
  "import_problem Map.empty True ''missing'' LINEAR d2d_class_initial
     = (Some (ImportException ''missing''), d2d_class_initial\<lparr>d2d_config_imported := True\<rparr>) \<and>
   d2d_problem (snd (import_problem
       [problem_path ''short'' \<mapsto>
          \<lparr>file_customers = Some 5, file_number_drone = Some 2, file_flight_time = None, file_rows = []\<rparr>]
       True ''short'' LINEAR d2d_class_initial)) = Some ''short''"
proof -
  let ?f = "[problem_path ''short'' \<mapsto>
          \<lparr>file_customers = Some 5, file_number_drone = Some 2, file_flight_time = None, file_rows = []\<rparr>]"
  have r1: "import_problem Map.empty True ''missing'' LINEAR d2d_class_initial
     = (Some (ImportException ''missing''), d2d_class_initial\<lparr>d2d_config_imported := True\<rparr>)"
    by (simp add: import_problem_def)
  have r2: "import_problem ?f True ''short'' LINEAR d2d_class_initial
     = (Some (ImportException ''short''),
        snd (import_problem ?f True ''short'' LINEAR d2d_class_initial))"
    by (simp add: import_problem_def)
  have "d2d_problem (snd (import_problem ?f True ''short'' LINEAR d2d_class_initial)) = Some ''short''"
    using import_problem_failure [OF r2] by simp
  with r1 show ?thesis by simp
qed

text \<open>
  The claim C6 as stated fails for a file that has the line of the customers and no line
  of the drones: the call, made on the state in which nothing is set, raises and leaves
  \<open>problem\<close> and \<open>customers_count\<close> set.
\<close>

theorem import_problem_partial_state_counterexample:
  "import_problem
     [problem_path ''p'' \<mapsto>
        \<lparr>file_customers = Some 5, file_number_drone = None, file_flight_time = None, file_rows = []\<rparr>]
     True ''p'' LINEAR d2d_class_initial
     = (Some (ImportException ''p''),
        d2d_class_initial\<lparr>d2d_config_imported := True, d2d_problem := Some ''p'',
                           d2d_customers_count := Some 5\<rparr>) \<and>
   d2d_problem d2d_class_initial = None \<and> d2d_customers_count d2d_class_initial = None"
  by (simp add: import_problem_def d2d_class_initial_def)

subsection \<open>The initial solution of the D2D problem\<close>

lemma returns_Inr: "returns m \<Longrightarrow> \<exists>v. m = Inr v"
  by (cases m) (simp_all add: returns_def)

lemma min_index_loop_total:
  "\<forall>a \<in> set xs. \<exists>v. key a = Inr v \<Longrightarrow> \<exists>j. min_index_loop lt key xs pos best best_key = Inr j"
proof (induction xs arbitrary: pos best best_key)
  case Nil
  then show ?case by simp
next
  case (Cons a xs)
  then obtain v where "key a = Inr v" by auto
  then show ?case using Cons by simp
qed

lemma py_min_index_total:
  assumes "\<forall>a \<in> set xs. \<exists>v. key a = Inr v" and "xs \<noteq> []"
  shows "\<exists>j. py_min_index lt key xs = Inr j \<and> j < length xs"
proof -
  obtain a rest where xs: "xs = a # rest" using assms(2) by (cases xs) auto
  obtain v where v: "key a = Inr v" using assms(1) xs by auto
  obtain j where "min_index_loop lt key rest 1 0 v = Inr j"
    using min_index_loop_total [of rest key lt 1 0 v] assms(1) xs by auto
  then have "py_min_index lt key xs = Inr j" using xs v by (simp add: py_min_index_def)
  then show ?thesis using py_min_index_less by blast
qed

lemma mset_concat_update:
  "t < length xs \<Longrightarrow> mset (concat (xs[t := v])) + mset (xs ! t) = mset (concat xs) + mset v"
proof (induction xs arbitrary: t)
  case Nil
  then show ?case by simp
next
  case (Cons x xs)
  then show ?case by (cases t) (auto simp: add.assoc [symmetric])
qed

text \<open>One turn of the technician loop, when the loop returns.\<close>

lemma technician_loop_step:
  assumes "technician_loop fl P tps tonly k = Inr r" and "tonly \<noteq> []"
  shows "tps \<noteq> [] \<and>
         (\<exists>index \<in> set tonly.
            technician_loop fl P (tps[k mod length tps := tps ! (k mod length tps) @ [index]])
              (remove1 index tonly) (Suc k) = Inr r)"
proof -
  have ne: "tps \<noteq> []"
    using assms by (subst (asm) technician_loop.simps) (simp split: if_splits)
  obtain j where j: "py_min_index (fl_lt fl) (distance fl P (last (tps ! (k mod length tps)))) tonly = Inr j"
    and run: "technician_loop fl P (tps[k mod length tps := tps ! (k mod length tps) @ [tonly ! j]])
              (remove1 (tonly ! j) tonly) (Suc k) = Inr r"
    using assms ne
    by (subst (asm) technician_loop.simps) (simp add: Let_def split: sum.splits)
  have "tonly ! j \<in> set tonly" using py_min_index_less [OF j] by simp
  then show ?thesis using ne run by blast
qed

lemma technician_loop_inv:
  assumes "technician_loop fl P tps tonly k = Inr r"
    and "\<forall>p \<in> set tps. p \<noteq> []"
  shows "length r = length tps \<and>
         mset (concat r) = mset (concat tps) + mset tonly \<and>
         (\<forall>i < length tps. r ! i \<noteq> [] \<and> hd (r ! i) = hd (tps ! i))"
  using assms
proof (induction "length tonly" arbitrary: tps tonly k)
  case 0
  then show ?case by (subst (asm) technician_loop.simps) auto
next
  case (Suc m)
  then have ne: "tonly \<noteq> []" by auto
  from technician_loop_step [OF Suc.prems(1) ne]
  obtain index where tne: "tps \<noteq> []" and im: "index \<in> set tonly"
    and run: "technician_loop fl P (tps[k mod length tps := tps ! (k mod length tps) @ [index]])
              (remove1 index tonly) (Suc k) = Inr r"
    by blast
  define t where "t = k mod length tps"
  define path where "path = tps ! t"
  have t: "t < length tps" using tne by (simp add: t_def)
  then have pne: "path \<noteq> []" using Suc.prems(2) by (simp add: path_def)
  let ?paths = "tps[t := path @ [index]]"
  let ?rem = "remove1 index tonly"
  have len: "m = length ?rem" using Suc(2) im by (simp add: length_remove1)
  have p2: "\<forall>p \<in> set ?paths. p \<noteq> []"
  proof
    fix p assume "p \<in> set ?paths"
    then have "p = path @ [index] \<or> p \<in> set tps"
      using set_update_subset_insert by fastforce
    then show "p \<noteq> []" using Suc.prems(2) by auto
  qed
  from Suc(1) [OF len run [folded t_def, folded path_def] p2]
  have r: "length r = length ?paths"
      "mset (concat r) = mset (concat ?paths) + mset ?rem"
      "\<forall>i < length ?paths. r ! i \<noteq> [] \<and> hd (r ! i) = hd (?paths ! i)"
    by blast+
  have "mset (concat ?paths) + mset path = mset (concat tps) + mset (path @ [index])"
    using mset_concat_update [OF t, of "path @ [index]"] by (simp add: path_def)
  then have "mset (concat ?paths) = mset (concat tps) + {#index#}" by simp
  moreover have "mset ?rem + {#index#} = mset tonly" using im by simp
  ultimately have ms: "mset (concat r) = mset (concat tps) + mset tonly"
    using r(2) by (metis add.assoc add.commute)
  have h: "r ! i \<noteq> [] \<and> hd (r ! i) = hd (tps ! i)" if "i < length tps" for i
  proof (cases "i = t")
    case True
    then show ?thesis using r(3) that pne by (auto simp: path_def)
  next
    case False
    then show ?thesis using r(3) that by auto
  qed
  from r(1) ms h show ?case by simp
qed

lemma technician_loop_total:
  assumes "tps \<noteq> []"
    and "\<forall>p \<in> set tps. p \<noteq> [] \<and> (\<forall>i \<in> set p. i \<le> n)"
    and "\<forall>i \<in> set tonly. i \<le> n"
    and "\<forall>i \<le> n. \<forall>j \<le> n. returns (distance fl P i j)"
  shows "\<exists>r. technician_loop fl P tps tonly k = Inr r"
  using assms
proof (induction "length tonly" arbitrary: tps tonly k)
  case 0
  then show ?case by (subst technician_loop.simps) simp
next
  case (Suc m)
  then have ne: "tonly \<noteq> []" by auto
  define t where "t = k mod length tps"
  define path where "path = tps ! t"
  have t: "t < length tps" using Suc.prems(1) by (simp add: t_def)
  then have pm: "path \<in> set tps" by (simp add: path_def)
  then have pne: "path \<noteq> []" and pn: "\<forall>i \<in> set path. i \<le> n" using Suc.prems(2) by auto
  then have ln: "last path \<le> n" by simp
  have "\<forall>a \<in> set tonly. \<exists>d. distance fl P (last path) a = Inr d"
    using ln Suc.prems(3,4) by (auto intro: returns_Inr)
  then obtain j where j: "py_min_index (fl_lt fl) (distance fl P (last path)) tonly = Inr j"
      "j < length tonly"
    using py_min_index_total ne by blast
  define index where "index = tonly ! j"
  have im: "index \<in> set tonly" using j(2) by (simp add: index_def)
  let ?paths = "tps[t := path @ [index]]"
  let ?rem = "remove1 index tonly"
  have len: "m = length ?rem" using Suc(2) im by (simp add: length_remove1)
  have p1: "?paths \<noteq> []" using Suc.prems(1) by simp
  have p2: "\<forall>p \<in> set ?paths. p \<noteq> [] \<and> (\<forall>i \<in> set p. i \<le> n)"
  proof
    fix p assume "p \<in> set ?paths"
    then have "p = path @ [index] \<or> p \<in> set tps"
      using set_update_subset_insert by fastforce
    then show "p \<noteq> [] \<and> (\<forall>i \<in> set p. i \<le> n)"
      using pn im Suc.prems(2,3) by auto
  qed
  have p3: "\<forall>i \<in> set ?rem. i \<le> n" using Suc.prems(3) by (auto dest: notin_set_remove1)
  from Suc(1) [OF len p1 p2 p3 Suc.prems(4), of "Suc k"]
  obtain r where r: "technician_loop fl P ?paths ?rem (Suc k) = Inr r" by blast
  have "technician_loop fl P tps tonly k = Inr r"
    using ne Suc.prems(1) j(1) r
    by (subst technician_loop.simps) (simp add: t_def path_def index_def Let_def)
  then show ?case by blast
qed


lemma mset_cancel_middle:
  fixes A :: "'a multiset"
  shows "A + T = C + (T + I) \<Longrightarrow> A = C + I"
  by (simp add: ac_simps)

lemma visits_append: "visits (xs @ ys) = visits xs + visits ys"
  by (simp add: visits_def)

lemma visits_Cons: "visits (x # xs) = visits [x] + visits xs"
  by (simp add: visits_def)

lemma visits_update:
  "t < length xs \<Longrightarrow> visits (xs[t := v]) + visits [xs ! t] = visits xs + visits [v]"
  using arg_cong [OF mset_concat_update [of t xs v], of "filter_mset (\<lambda>i. i \<noteq> 0)"]
  by (simp add: visits_def)

lemma visits_concat_update:
  "d < length xss \<Longrightarrow>
   visits (concat (xss[d := v])) + visits (xss ! d) = visits (concat xss) + visits v"
proof (induction xss arbitrary: d)
  case Nil
  then show ?case by simp
next
  case (Cons x xss)
  then show ?case by (cases d) (auto simp: visits_append add.assoc [symmetric])
qed

lemma visits_snoc_path: "paths \<noteq> [] \<Longrightarrow> visits (butlast paths @ [last paths @ ys]) = visits paths + visits [ys]"
proof -
  assume "paths \<noteq> []"
  then have "paths = butlast paths @ [last paths]" by simp
  then have "visits paths = visits (butlast paths) + visits [last paths]"
    by (metis visits_append)
  then show ?thesis by (simp add: visits_append) (simp add: visits_def)
qed

lemma visits_single: "visits [[i]] = (if i = 0 then {#} else {#i#})"
  by (simp add: visits_def)

lemma depot_path_insert:
  assumes "depot_path p"
  shows "depot_path (butlast p @ [i, last p])"
proof (cases p)
  case Nil
  then show ?thesis using assms by (simp add: depot_path_def)
next
  case (Cons a q)
  then have q: "q \<noteq> []" using assms by (auto simp: depot_path_def)
  then have "butlast p = a # butlast q" "last p = last q" using Cons by simp_all
  then show ?thesis using assms Cons q by (simp add: depot_path_def)
qed

lemma visits_insert:
  assumes "p \<noteq> []"
  shows "visits [butlast p @ [i, last p]] = visits [p] + visits [[i]]"
proof -
  have "mset (butlast p @ [i, last p]) = mset (butlast p @ [last p]) + {#i#}" by simp
  then show ?thesis using assms by (simp add: visits_def)
qed

lemma open_paths_append:
  assumes "open_paths paths"
  shows "open_paths (butlast paths @ [last paths @ [i]])"
  using assms by (simp add: open_paths_def)

lemma open_paths_close:
  assumes "open_paths paths"
  shows "open_paths (butlast paths @ [last paths @ [0], [0]])"
proof -
  have "butlast (butlast paths @ [last paths @ [0], [0]]) = butlast paths @ [last paths @ [0]]"
    by (simp add: butlast_append)
  moreover have "depot_path (last paths @ [0])"
    using assms by (cases "last paths") (auto simp: open_paths_def depot_path_def)
  ultimately show ?thesis using assms by (simp add: open_paths_def)
qed

text \<open>One turn of the drone loop, when the loop returns.\<close>

lemma drone_loop_step:
  assumes "drone_loop fl P dps weight time energy dronable tps k = Inr r" and "dronable \<noteq> []"
  shows "pd_drones_count P \<noteq> 0 \<and>
         (\<exists>index \<in> set dronable.
            (\<exists>weight' time' energy'.
               drone_loop fl P
                 (dps[k mod pd_drones_count P :=
                        butlast (dps ! (k mod pd_drones_count P))
                        @ [last (dps ! (k mod pd_drones_count P)) @ [index]]])
                 weight' time' energy' (remove1 index dronable) tps (Suc k) = Inr r) \<or>
            (\<exists>t < length tps.
               drone_loop fl P
                 (dps[k mod pd_drones_count P :=
                        butlast (dps ! (k mod pd_drones_count P))
                        @ [last (dps ! (k mod pd_drones_count P)) @ [0], [0]]])
                 weight time energy (remove1 index dronable)
                 (tps[t := butlast (tps ! t) @ [index, last (tps ! t)]]) (Suc k) = Inr r))"
proof -
  define drone where "drone = k mod pd_drones_count P"
  define paths where "paths = dps ! drone"
  define last_node where "last_node = last (last paths)"
  have dc: "pd_drones_count P \<noteq> 0"
    using assms by (subst (asm) drone_loop.simps) (simp split: if_splits)
  obtain config where cfg: "config_of P drone = Inr config"
    using assms dc
    by (subst (asm) drone_loop.simps) (simp add: Let_def drone_def split: sum.splits)
  obtain j where j: "py_min_index (fl_lt fl) (distance fl P last_node) dronable = Inr j"
    using assms dc cfg
    by (subst (asm) drone_loop.simps)
       (simp add: Let_def drone_def paths_def last_node_def split: sum.splits)
  define index where "index = dronable ! j"
  have im: "index \<in> set dronable" using py_min_index_less [OF j] by (simp add: index_def)
  have run: "drone_loop fl P dps weight time energy dronable tps k =
      (case flight_costs fl P config last_node index (weight ! drone) of
         Inl e \<Rightarrow> Inl e
       | Inr (dw, dt, de) \<Rightarrow>
           (case drone_fits fl P config (weight ! drone) (time ! drone) (energy ! drone) dw dt de of
              Inl e \<Rightarrow> Inl e
            | Inr (Some (new_weight, new_time, new_energy)) \<Rightarrow>
                drone_loop fl P (dps[drone := butlast paths @ [last paths @ [index]]])
                  (weight[drone := new_weight]) (time[drone := new_time])
                  (energy[drone := new_energy]) (remove1 index dronable) tps (Suc k)
            | Inr None \<Rightarrow>
                (case py_min_index (fl_lt fl) (technician_key fl P index) tps of
                   Inl e \<Rightarrow> Inl e
                 | Inr t \<Rightarrow>
                     drone_loop fl P (dps[drone := butlast paths @ [last paths @ [0], [0]]])
                       weight time energy (remove1 index dronable)
                       (tps[t := butlast (tps ! t) @ [index, last (tps ! t)]]) (Suc k))))"
    using assms(2) dc cfg j unfolding drone_def paths_def last_node_def index_def
    by (subst drone_loop.simps) (simp add: Let_def)
  obtain costs where fc: "flight_costs fl P config last_node index (weight ! drone) = Inr costs"
    using assms(1) unfolding run by (cases "flight_costs fl P config last_node index (weight ! drone)") simp_all
  obtain dw dt de where costs: "costs = (dw, dt, de)" by (cases costs)
  obtain fit where fit:
    "drone_fits fl P config (weight ! drone) (time ! drone) (energy ! drone) dw dt de = Inr fit"
    using assms(1) unfolding run
    by (cases "drone_fits fl P config (weight ! drone) (time ! drone) (energy ! drone) dw dt de")
       (simp_all add: fc costs)
  show ?thesis
  proof (cases fit)
    case (Some triple)
    obtain w' t' e' where triple: "triple = (w', t', e')" by (cases triple)
    have "drone_loop fl P (dps[drone := butlast paths @ [last paths @ [index]]])
            (weight[drone := w']) (time[drone := t']) (energy[drone := e'])
            (remove1 index dronable) tps (Suc k) = Inr r"
      using assms(1) unfolding run by (simp add: fc costs fit Some triple)
    then show ?thesis using dc im unfolding drone_def paths_def by blast
  next
    case None
    obtain t where t: "py_min_index (fl_lt fl) (technician_key fl P index) tps = Inr t"
      using assms(1) unfolding run
      by (cases "py_min_index (fl_lt fl) (technician_key fl P index) tps")
         (simp_all add: fc costs fit None)
    have run': "drone_loop fl P (dps[drone := butlast paths @ [last paths @ [0], [0]]])
            weight time energy (remove1 index dronable)
            (tps[t := butlast (tps ! t) @ [index, last (tps ! t)]]) (Suc k) = Inr r"
      using assms(1) unfolding run by (simp add: fc costs fit None t)
    have "t < length tps" using py_min_index_less [OF t] .
    then show ?thesis using dc im run' unfolding drone_def paths_def by blast
  qed
qed


lemma drone_loop_inv:
  assumes "drone_loop fl P dps weight time energy dronable tps k = Inr (dps', tps')"
    and "length dps = pd_drones_count P"
    and "\<forall>paths \<in> set dps. open_paths paths"
    and "\<forall>p \<in> set tps. depot_path p"
    and "\<forall>i \<in> set dronable. 0 < i"
  shows "length dps' = length dps \<and> (\<forall>paths \<in> set dps'. open_paths paths) \<and>
         (\<forall>p \<in> set tps'. depot_path p) \<and>
         visits (concat dps') + visits tps' = visits (concat dps) + visits tps + mset dronable \<and>
         mset (concat tps) \<subseteq># mset (concat tps')"
  using assms
proof (induction "length dronable" arbitrary: dps weight time energy dronable tps k)
  case 0
  then show ?case by (subst (asm) drone_loop.simps) auto
next
  case (Suc m)
  note len = Suc.prems(2) and dp = Suc.prems(3) and tp = Suc.prems(4) and dr = Suc.prems(5)
  have ne: "dronable \<noteq> []" using Suc(2) by auto
  define drone where "drone = k mod pd_drones_count P"
  define paths where "paths = dps ! drone"
  from drone_loop_step [OF Suc.prems(1) ne, folded drone_def, folded paths_def]
  obtain index where dc: "pd_drones_count P \<noteq> 0" and im: "index \<in> set dronable"
    and step: "(\<exists>weight' time' energy'.
               drone_loop fl P (dps[drone := butlast paths @ [last paths @ [index]]])
                 weight' time' energy' (remove1 index dronable) tps (Suc k) = Inr (dps', tps')) \<or>
            (\<exists>t < length tps.
               drone_loop fl P (dps[drone := butlast paths @ [last paths @ [0], [0]]])
                 weight time energy (remove1 index dronable)
                 (tps[t := butlast (tps ! t) @ [index, last (tps ! t)]]) (Suc k) = Inr (dps', tps'))"
    by blast
  have d: "drone < length dps" using dc len by (simp add: drone_def)
  then have pm: "paths \<in> set dps" by (simp add: paths_def)
  then have op: "open_paths paths" using dp by auto
  have pne: "paths \<noteq> []" using op by (auto simp: open_paths_def)
  have i0: "0 < index" using dr im by auto
  let ?rem = "remove1 index dronable"
  have lrem: "m = length ?rem" using Suc(2) im by (simp add: length_remove1)
  have rem: "\<forall>i \<in> set ?rem. 0 < i" using dr by (auto dest: notin_set_remove1)
  have mrem: "mset ?rem + {#index#} = mset dronable" using im by simp
  have vidx: "visits [[index]] = {#index#}" using i0 by (simp add: visits_single)
  from step show ?case
  proof (elim disjE exE conjE)
    fix weight' time' energy'
    let ?paths = "butlast paths @ [last paths @ [index]]"
    let ?dps = "dps[drone := ?paths]"
    assume run: "drone_loop fl P ?dps weight' time' energy' ?rem tps (Suc k) = Inr (dps', tps')"
    have a1: "length ?dps = pd_drones_count P" using len by simp
    have a2: "\<forall>paths \<in> set ?dps. open_paths paths"
    proof
      fix q assume "q \<in> set ?dps"
      then have "q = ?paths \<or> q \<in> set dps"
        using set_update_subset_insert by fastforce
      then show "open_paths q" using open_paths_append [OF op] dp by auto
    qed
    from Suc(1) [OF lrem run a1 a2 tp rem]
    have r: "length dps' = length ?dps" "\<forall>a \<in> set dps'. open_paths a" "\<forall>a \<in> set tps'. depot_path a"
      "visits (concat dps') + visits tps' = visits (concat ?dps) + visits tps + mset ?rem"
      "mset (concat tps) \<subseteq># mset (concat tps')"
      by blast+
    have "visits (concat ?dps) + visits paths = visits (concat dps) + visits ?paths"
      using visits_concat_update [OF d, of ?paths] by (simp add: paths_def)
    then have "visits (concat ?dps) = visits (concat dps) + {#index#}"
      using visits_snoc_path [OF pne, of "[index]"] vidx by simp
    then have v: "visits (concat dps') + visits tps'
           = visits (concat dps) + visits tps + mset dronable"
      using r(4) mrem by (metis add.assoc add.commute)
    from r(1,2,3,5) v show ?thesis by simp
  next
    fix t
    assume t: "t < length tps"
    define tpath where "tpath = tps ! t"
    let ?paths = "butlast paths @ [last paths @ [0], [0]]"
    let ?dps = "dps[drone := ?paths]"
    let ?tpath = "butlast tpath @ [index, last tpath]"
    let ?tps = "tps[t := ?tpath]"
    assume "drone_loop fl P ?dps weight time energy ?rem
              (tps[t := butlast (tps ! t) @ [index, last (tps ! t)]]) (Suc k) = Inr (dps', tps')"
    then have run: "drone_loop fl P ?dps weight time energy ?rem ?tps (Suc k) = Inr (dps', tps')"
      by (simp add: tpath_def)
    have tpm: "tpath \<in> set tps" using t by (simp add: tpath_def)
    then have tdp: "depot_path tpath" using tp by auto
    then have tpne: "tpath \<noteq> []" by (auto simp: depot_path_def)
    have a1: "length ?dps = pd_drones_count P" using len by simp
    have a2: "\<forall>paths \<in> set ?dps. open_paths paths"
    proof
      fix q assume "q \<in> set ?dps"
      then have "q = ?paths \<or> q \<in> set dps"
        using set_update_subset_insert by fastforce
      then show "open_paths q" using open_paths_close [OF op] dp by auto
    qed
    have a4: "\<forall>p \<in> set ?tps. depot_path p"
    proof
      fix q assume "q \<in> set ?tps"
      then have "q = ?tpath \<or> q \<in> set tps"
        using set_update_subset_insert by fastforce
      then show "depot_path q" using depot_path_insert [OF tdp] tp by auto
    qed
    from Suc(1) [OF lrem run a1 a2 a4 rem]
    have r: "length dps' = length ?dps" "\<forall>a \<in> set dps'. open_paths a" "\<forall>a \<in> set tps'. depot_path a"
      "visits (concat dps') + visits tps' = visits (concat ?dps) + visits ?tps + mset ?rem"
      "mset (concat ?tps) \<subseteq># mset (concat tps')"
      by blast+
    have "visits (concat ?dps) + visits paths = visits (concat dps) + visits ?paths"
      using visits_concat_update [OF d, of ?paths] by (simp add: paths_def)
    moreover have "visits ?paths = visits paths"
    proof -
      have "paths = butlast paths @ [last paths]" using pne by simp
      then have "visits paths = visits (butlast paths) + visits [last paths]"
        by (metis visits_append)
      then show ?thesis by (simp add: visits_append) (simp add: visits_def)
    qed
    ultimately have v1: "visits (concat ?dps) = visits (concat dps)" by simp
    have "visits ?tps + visits [tpath] = visits tps + visits [?tpath]"
      using visits_update [OF t, of ?tpath] by (simp add: tpath_def)
    then have v2: "visits ?tps = visits tps + {#index#}"
      using visits_insert [OF tpne, of index] vidx by simp
    have v: "visits (concat dps') + visits tps'
           = visits (concat dps) + visits tps + mset dronable"
      using r(4) v1 v2 mrem by (metis add.assoc add.commute)
    have e1: "mset (concat ?tps) + mset tpath = mset (concat tps) + mset ?tpath"
      using mset_concat_update [OF t, of ?tpath] by (simp add: tpath_def)
    have e2: "mset ?tpath = mset tpath + {#index#}"
    proof -
      have "mset (butlast tpath @ [index, last tpath]) = mset (butlast tpath @ [last tpath]) + {#index#}"
        by simp
      then show ?thesis using tpne by simp
    qed
    have "mset (concat ?tps) = mset (concat tps) + {#index#}"
      by (rule mset_cancel_middle [OF e1 [unfolded e2]])
    then have s: "mset (concat tps) \<subseteq># mset (concat tps')"
      using r(5) by (metis mset_subset_eq_add_left subset_mset.order_trans)
    from r(1,2,3) v s show ?thesis by simp
  qed
qed


lemma returns_err_bind:
  "returns m \<Longrightarrow> (\<And>v. m = Inr v \<Longrightarrow> returns (f v)) \<Longrightarrow> returns (err_bind m f)"
  by (cases m) (simp_all add: returns_def err_bind_def)

lemma returns_InrI: "returns (Inr v)"
  by (simp add: returns_def)

lemma returns_py_index: "i < length xs \<Longrightarrow> returns (py_index xs i)"
  by (simp add: returns_def py_index_def)

lemma flight_costs_total:
  assumes "index < length (pd_demands P)"
    and "returns (fl_div fl (cfg_altitude config) (cfg_takeoff_speed config))"
    and "returns (fl_div fl (cfg_altitude config) (cfg_landing_speed config))"
    and "returns (distance fl P last_node index)"
    and "\<forall>d. returns (fl_div fl d (cfg_cruise_speed config))"
    and "\<forall>a b. returns (fl_add fl a b)" and "\<forall>a b. returns (fl_mul fl a b)"
    and "\<forall>w. returns (cfg_takeoff_power config w)"
    and "\<forall>w. returns (cfg_landing_power config w)"
    and "\<forall>w. returns (cfg_cruise_power config w)"
  shows "returns (flight_costs fl P config last_node index weight)"
  unfolding flight_costs_def
  by (intro returns_err_bind returns_InrI returns_py_index assms assms(5-10) [rule_format])

lemma drone_fits_total:
  assumes "\<forall>a b. returns (fl_add fl a b)"
  shows "returns (drone_fits fl P config weight time energy dw dt de)"
  unfolding drone_fits_def
  by (intro returns_err_bind assms [rule_format]) (auto intro!: returns_err_bind returns_InrI assms [rule_format])

lemma drone_loop_total:
  assumes "d2d_wf P" and "arith_ok fl P" and "n = pd_customers_count P"
    and "length dps = pd_drones_count P"
    and "\<forall>paths \<in> set dps. paths \<noteq> [] \<and> last paths \<noteq> [] \<and> (\<forall>p \<in> set paths. \<forall>i \<in> set p. i \<le> n)"
    and "tps \<noteq> []"
    and "\<forall>p \<in> set tps. 2 \<le> length p \<and> (\<forall>i \<in> set p. i \<le> n)"
    and "\<forall>i \<in> set dronable. i \<le> n"
  shows "\<exists>r. drone_loop fl P dps weight time energy dronable tps k = Inr r"
  using assms
proof (induction "length dronable" arbitrary: dps weight time energy dronable tps k)
  case 0
  then show ?case by (subst drone_loop.simps) simp
next
  case (Suc m)
  note wf = Suc.prems(1) and ok = Suc.prems(2) and n = Suc.prems(3) and len = Suc.prems(4)
    and dp = Suc.prems(5) and tne = Suc.prems(6) and tp = Suc.prems(7) and dr = Suc.prems(8)
  have ne: "dronable \<noteq> []" using Suc(2) by auto
  have dc: "pd_drones_count P \<noteq> 0" using wf by (simp add: d2d_wf_def Let_def)
  define drone where "drone = k mod pd_drones_count P"
  define paths where "paths = dps ! drone"
  have dl: "drone < pd_drones_count P" using dc by (simp add: drone_def)
  then have d: "drone < length dps" using len by simp
  then have pm: "paths \<in> set dps" by (simp add: paths_def)
  then have pne: "paths \<noteq> []" and lne: "last paths \<noteq> []"
    and pn: "\<forall>p \<in> set paths. \<forall>i \<in> set p. i \<le> n"
    using dp by auto
  define configs where "configs = (if pd_energy_mode P = LINEAR then pd_drone_linear_config P
                     else pd_drone_nonlinear_config P)"
  define config where "config = configs ! drone"
  have cl: "drone < length configs" using wf dl by (simp add: d2d_wf_def Let_def configs_def)
  have cfg: "config_of P drone = Inr config"
    using cl by (simp add: config_of_def py_index_def config_def configs_def)
  have add: "\<forall>a b. returns (fl_add fl a b)" and mul: "\<forall>a b. returns (fl_mul fl a b)"
    and dist: "\<forall>i \<le> n. \<forall>j \<le> n. returns (distance fl P i j)"
    using ok n by (simp_all add: arith_ok_def Let_def)
  have conf: "returns (fl_div fl (cfg_altitude config) (cfg_takeoff_speed config))"
    "returns (fl_div fl (cfg_altitude config) (cfg_landing_speed config))"
    "\<forall>d. returns (fl_div fl d (cfg_cruise_speed config))"
    "\<forall>w. returns (cfg_takeoff_power config w)"
    "\<forall>w. returns (cfg_landing_power config w)"
    "\<forall>w. returns (cfg_cruise_power config w)"
    using ok dl by (simp_all add: arith_ok_def Let_def config_def configs_def)
  have dem: "n < length (pd_demands P)" using wf n by (simp add: d2d_wf_def Let_def)
  define last_node where "last_node = last (last paths)"
  have "last paths \<in> set paths" using pne by simp
  then have ln: "last_node \<le> n" using pn lne by (simp add: last_node_def)
  have "\<forall>a \<in> set dronable. \<exists>v. distance fl P last_node a = Inr v"
    using ln dr dist by (auto intro: returns_Inr)
  then obtain j where j: "py_min_index (fl_lt fl) (distance fl P last_node) dronable = Inr j"
    "j < length dronable"
    using py_min_index_total ne by blast
  define index where "index = dronable ! j"
  have im: "index \<in> set dronable" using j(2) by (simp add: index_def)
  then have il: "index \<le> n" using dr by auto
  have run: "drone_loop fl P dps weight time energy dronable tps k =
      (case flight_costs fl P config last_node index (weight ! drone) of
         Inl e \<Rightarrow> Inl e
       | Inr (dw, dt, de) \<Rightarrow>
           (case drone_fits fl P config (weight ! drone) (time ! drone) (energy ! drone) dw dt de of
              Inl e \<Rightarrow> Inl e
            | Inr (Some (new_weight, new_time, new_energy)) \<Rightarrow>
                drone_loop fl P (dps[drone := butlast paths @ [last paths @ [index]]])
                  (weight[drone := new_weight]) (time[drone := new_time])
                  (energy[drone := new_energy]) (remove1 index dronable) tps (Suc k)
            | Inr None \<Rightarrow>
                (case py_min_index (fl_lt fl) (technician_key fl P index) tps of
                   Inl e \<Rightarrow> Inl e
                 | Inr t \<Rightarrow>
                     drone_loop fl P (dps[drone := butlast paths @ [last paths @ [0], [0]]])
                       weight time energy (remove1 index dronable)
                       (tps[t := butlast (tps ! t) @ [index, last (tps ! t)]]) (Suc k))))"
    using ne dc cfg j(1) unfolding drone_def paths_def last_node_def index_def
    by (subst drone_loop.simps) (simp add: Let_def)
  have "returns (flight_costs fl P config last_node index (weight ! drone))"
    by (rule flight_costs_total [OF _ conf(1,2) _ conf(3) add mul conf(4,5,6)])
       (use il dem ln dist in auto)
  then obtain costs where fc: "flight_costs fl P config last_node index (weight ! drone) = Inr costs"
    using returns_Inr by blast
  obtain dw dt de where costs: "costs = (dw, dt, de)" by (cases costs)
  obtain fit where fit:
    "drone_fits fl P config (weight ! drone) (time ! drone) (energy ! drone) dw dt de = Inr fit"
    using returns_Inr [OF drone_fits_total [OF add]] by blast
  let ?rem = "remove1 index dronable"
  have lrem: "m = length ?rem" using Suc(2) im by (simp add: length_remove1)
  have rem: "\<forall>i \<in> set ?rem. i \<le> n" using dr by (auto dest: notin_set_remove1)
  show ?case
  proof (cases fit)
    case (Some triple)
    obtain w' t' e' where triple: "triple = (w', t', e')" by (cases triple)
    let ?paths = "butlast paths @ [last paths @ [index]]"
    let ?dps = "dps[drone := ?paths]"
    have a1: "length ?dps = pd_drones_count P" using len by simp
    have pn': "\<forall>p \<in> set ?paths. \<forall>i \<in> set p. i \<le> n"
      using pn il pne by (auto dest: in_set_butlastD)
    have a2: "\<forall>paths \<in> set ?dps. paths \<noteq> [] \<and> last paths \<noteq> [] \<and> (\<forall>p \<in> set paths. \<forall>i \<in> set p. i \<le> n)"
    proof
      fix q assume "q \<in> set ?dps"
      then have "q = ?paths \<or> q \<in> set dps"
        using set_update_subset_insert by fastforce
      then show "q \<noteq> [] \<and> last q \<noteq> [] \<and> (\<forall>p \<in> set q. \<forall>i \<in> set p. i \<le> n)"
        using pn' dp by auto
    qed
    from Suc(1) [OF lrem wf ok n a1 a2 tne tp rem,
        of "weight[drone := w']" "time[drone := t']" "energy[drone := e']" "Suc k"]
    obtain r where "drone_loop fl P ?dps (weight[drone := w']) (time[drone := t'])
            (energy[drone := e']) ?rem tps (Suc k) = Inr r" by blast
    then have "drone_loop fl P dps weight time energy dronable tps k = Inr r"
      unfolding run by (simp add: fc costs fit Some triple)
    then show ?thesis by blast
  next
    case None
    have keys: "\<forall>p \<in> set tps. \<exists>v. technician_key fl P index p = Inr v"
    proof
      fix p assume p: "p \<in> set tps"
      then have l2: "2 \<le> length p" and pin: "\<forall>i \<in> set p. i \<le> n"
        using tp by auto
      then have "p ! (length p - 2) \<in> set p" by simp
      then have "p ! (length p - 2) \<le> n" using pin by blast
      then have "returns (distance fl P index (p ! (length p - 2)))" using dist il by simp
      then show "\<exists>v. technician_key fl P index p = Inr v"
        using l2 returns_Inr by (simp add: technician_key_def)
    qed
    then obtain t where t: "py_min_index (fl_lt fl) (technician_key fl P index) tps = Inr t"
      "t < length tps"
      using py_min_index_total tne by blast
    define tpath where "tpath = tps ! t"
    have tpm: "tpath \<in> set tps" using t(2) by (simp add: tpath_def)
    then have tl2: "2 \<le> length tpath" and tpn: "\<forall>i \<in> set tpath. i \<le> n" using tp by auto
    then have tpne: "tpath \<noteq> []" by auto
    let ?paths = "butlast paths @ [last paths @ [0], [0]]"
    let ?dps = "dps[drone := ?paths]"
    let ?tpath = "butlast tpath @ [index, last tpath]"
    let ?tps = "tps[t := ?tpath]"
    have a1: "length ?dps = pd_drones_count P" using len by simp
    have pn': "\<forall>p \<in> set ?paths. \<forall>i \<in> set p. i \<le> n"
      using pn pne by (auto dest: in_set_butlastD)
    have a2: "\<forall>paths \<in> set ?dps. paths \<noteq> [] \<and> last paths \<noteq> [] \<and> (\<forall>p \<in> set paths. \<forall>i \<in> set p. i \<le> n)"
    proof
      fix q assume "q \<in> set ?dps"
      then have "q = ?paths \<or> q \<in> set dps"
        using set_update_subset_insert by fastforce
      then show "q \<noteq> [] \<and> last q \<noteq> [] \<and> (\<forall>p \<in> set q. \<forall>i \<in> set p. i \<le> n)"
        using pn' dp by auto
    qed
    have a3: "?tps \<noteq> []" using tne by simp
    have tn': "\<forall>i \<in> set ?tpath. i \<le> n"
      using tpn il tpne by (auto dest: in_set_butlastD)
    have a4: "\<forall>p \<in> set ?tps. 2 \<le> length p \<and> (\<forall>i \<in> set p. i \<le> n)"
    proof
      fix q assume "q \<in> set ?tps"
      then have "q = ?tpath \<or> q \<in> set tps"
        using set_update_subset_insert by fastforce
      then show "2 \<le> length q \<and> (\<forall>i \<in> set q. i \<le> n)"
        using tn' tp by auto
    qed
    from Suc(1) [OF lrem wf ok n a1 a2 a3 a4 rem, of weight time energy "Suc k"]
    obtain r where "drone_loop fl P ?dps weight time energy ?rem ?tps (Suc k) = Inr r" by blast
    then have "drone_loop fl P dps weight time energy dronable tps k = Inr r"
      unfolding run by (simp add: fc costs fit None t(1) tpath_def)
    then show ?thesis by blast
  qed
qed


lemma visits_zero: "\<forall>p \<in> set ps. \<forall>i \<in> set p. i = 0 \<Longrightarrow> visits ps = {#}"
proof -
  assume "\<forall>p \<in> set ps. \<forall>i \<in> set p. i = 0"
  then have "filter (\<lambda>i. i \<noteq> 0) (concat ps) = []" by (auto simp: filter_empty_conv)
  then have "mset (filter (\<lambda>i. i \<noteq> 0) (concat ps)) = {#}" by simp
  then show ?thesis by (simp add: visits_def)
qed

lemma visits_map_snoc0: "visits (map (\<lambda>p. p @ [0]) ps) = visits ps"
  by (induction ps) (simp_all add: visits_def)

lemma visits_close: "paths \<noteq> [] \<Longrightarrow> visits (butlast paths @ [last paths @ [0]]) = visits paths"
  using visits_snoc_path [of paths "[0]"] by (simp add: visits_single)

lemma visits_concat_map_close:
  "\<forall>q \<in> set dps. q \<noteq> [] \<Longrightarrow>
   visits (concat (map (\<lambda>paths. butlast paths @ [last paths @ [0]]) dps)) = visits (concat dps)"
proof (induction dps)
  case Nil
  then show ?case by simp
next
  case (Cons q dps)
  let ?c = "\<lambda>paths. butlast paths @ [last paths @ [0 :: nat]]"
  have "visits (concat (map ?c (q # dps))) = visits (?c q) + visits (concat (map ?c dps))"
    by (simp only: list.map concat.simps visits_append)
  also have "\<dots> = visits q + visits (concat dps)"
  proof -
    have "visits (?c q) = visits q" by (rule visits_close) (use Cons.prems in simp)
    moreover have "visits (concat (map ?c dps)) = visits (concat dps)"
      by (rule Cons.IH) (use Cons.prems in simp)
    ultimately show ?thesis by (simp only:)
  qed
  also have "\<dots> = visits (concat (q # dps))"
    by (simp only: concat.simps visits_append)
  finally show ?case .
qed

lemma depot_short: "depot_path p \<Longrightarrow> \<not> 2 < length p \<Longrightarrow> p = [0, 0]"
proof -
  assume d: "depot_path p" and l: "\<not> 2 < length p"
  then have "length p = 2" by (simp add: depot_path_def)
  then obtain a b where "p = [a, b]"
    by (auto simp: numeral_2_eq_2 length_Suc_conv)
  then show ?thesis using d by (simp add: depot_path_def)
qed

lemma visits_filter_long:
  "\<forall>p \<in> set tps. depot_path p \<Longrightarrow> visits (filter (\<lambda>p. 2 < length p) tps) = visits tps"
proof (induction tps)
  case Nil
  then show ?case by simp
next
  case (Cons p tps)
  have IH: "visits (filter (\<lambda>p. 2 < length p) tps) = visits tps"
    by (rule Cons.IH) (use Cons.prems in simp)
  have split: "visits (p # tps) = visits [p] + visits tps" by (rule visits_Cons)
  show ?case
  proof (cases "2 < length p")
    case True
    then have "filter (\<lambda>p. 2 < length p) (p # tps) = p # filter (\<lambda>p. 2 < length p) tps"
      by simp
    then have "visits (filter (\<lambda>p. 2 < length p) (p # tps))
                 = visits [p] + visits (filter (\<lambda>p. 2 < length p) tps)"
      by (simp only: visits_Cons [of p "filter (\<lambda>p. 2 < length p) tps"])
    then show ?thesis unfolding IH split .
  next
    case False
    then have "p = [0, 0]" using Cons.prems depot_short by simp
    then have "visits [p] = {#}" by (simp add: visits_def)
    moreover have "filter (\<lambda>p. 2 < length p) (p # tps) = filter (\<lambda>p. 2 < length p) tps"
      using False by simp
    ultimately show ?thesis unfolding split using IH by simp
  qed
qed

lemma open_paths_closed:
  assumes "open_paths q" and "p \<in> set (butlast q @ [last q @ [0]])"
  shows "depot_path p"
proof -
  have "depot_path (last q @ [0])"
    using assms(1) by (cases "last q") (auto simp: open_paths_def depot_path_def)
  then show ?thesis using assms by (auto simp: open_paths_def list_all_iff)
qed

text \<open>The two loops that a returning \<open>initial_paths\<close> has run.\<close>

lemma initial_paths_run:
  assumes "initial_paths fl set_iter P = Inr sol"
  shows "\<exists>tps1 dps tps.
           technician_loop fl P (replicate (pd_technicians_count P) [0])
             (set_iter (filter (\<lambda>e. \<not> pd_dronable P ! e) [1..<Suc (pd_customers_count P)])) 0
             = Inr tps1 \<and>
           drone_loop fl P (replicate (pd_drones_count P) [[0]])
             (replicate (pd_drones_count P) (fl_zero fl)) (replicate (pd_drones_count P) (fl_zero fl))
             (replicate (pd_drones_count P) (fl_zero fl))
             (set_iter (filter (\<lambda>e. pd_dronable P ! e) [1..<Suc (pd_customers_count P)]))
             (map (\<lambda>path. path @ [0]) tps1) 0 = Inr (dps, tps) \<and>
           sol = \<lparr>sol_drone_paths = map (\<lambda>paths. butlast paths @ [last paths @ [0]]) dps,
                  sol_technician_paths = filter (\<lambda>path. 2 < length path) tps\<rparr>"
  using assms unfolding initial_paths_def Let_def
  by (auto simp del: upt_Suc split: if_splits sum.splits)

lemma initial_paths_valid:
  assumes order: "set_order_ok set_iter P"
    and ret: "initial_paths fl set_iter P = Inr sol"
  shows "valid_routes P sol"
proof -
  define n where "n = pd_customers_count P"
  define tc where "tc = pd_technicians_count P"
  define dc where "dc = pd_drones_count P"
  define technician_only where
    "technician_only = set_iter (filter (\<lambda>e. \<not> pd_dronable P ! e) [1..<Suc n])"
  define dronable where "dronable = set_iter (filter (\<lambda>e. pd_dronable P ! e) [1..<Suc n])"
  from initial_paths_run [OF ret]
  obtain tps1 dps tps where
    tl: "technician_loop fl P (replicate tc [0]) technician_only 0 = Inr tps1"
    and dl: "drone_loop fl P (replicate dc [[0]]) (replicate dc (fl_zero fl))
              (replicate dc (fl_zero fl)) (replicate dc (fl_zero fl)) dronable
              (map (\<lambda>path. path @ [0]) tps1) 0 = Inr (dps, tps)"
    and sol: "sol = \<lparr>sol_drone_paths = map (\<lambda>paths. butlast paths @ [last paths @ [0]]) dps,
                  sol_technician_paths = filter (\<lambda>path. 2 < length path) tps\<rparr>"
    unfolding n_def tc_def dc_def technician_only_def dronable_def by blast
  have mt: "mset technician_only = mset (filter (\<lambda>e. \<not> pd_dronable P ! e) [1..<Suc n])"
    unfolding technician_only_def n_def using order by (simp add: set_order_ok_def Let_def del: upt_Suc)
  have md: "mset dronable = mset (filter (\<lambda>e. pd_dronable P ! e) [1..<Suc n])"
    unfolding dronable_def n_def using order by (simp add: set_order_ok_def Let_def del: upt_Suc)
  have st: "set technician_only = set (filter (\<lambda>e. \<not> pd_dronable P ! e) [1..<Suc n])"
    using mt by (rule mset_eq_setD)
  have sd: "set dronable = set (filter (\<lambda>e. pd_dronable P ! e) [1..<Suc n])"
    using md by (rule mset_eq_setD)
  \<comment> \<open>the technician loop\<close>
  have t2: "\<forall>p \<in> set (replicate tc [0 :: nat]). p \<noteq> []" by simp
  from technician_loop_inv [OF tl t2]
  have tlen: "length tps1 = tc"
    and tms: "mset (concat tps1) = mset (concat (replicate tc [0])) + mset technician_only"
    and thd: "\<forall>i < tc. tps1 ! i \<noteq> [] \<and> hd (tps1 ! i) = 0"
    by auto
  define tps2 where "tps2 = map (\<lambda>path. path @ [0 :: nat]) tps1"
  have tps2_ok: "\<forall>p \<in> set tps2. depot_path p"
  proof
    fix p assume "p \<in> set tps2"
    then obtain q where q: "q \<in> set tps1" "p = q @ [0]" by (auto simp: tps2_def)
    then obtain i where "i < tc" "tps1 ! i = q" using tlen by (auto simp: in_set_conv_nth)
    then have "q \<noteq> []" "hd q = 0" using thd by auto
    then show "depot_path p" using q(2) by (cases q) (auto simp: depot_path_def)
  qed
  \<comment> \<open>the drone loop\<close>
  have d1: "length (replicate dc [[0 :: nat]]) = pd_drones_count P" by (simp add: dc_def)
  have d2: "\<forall>paths \<in> set (replicate dc [[0 :: nat]]). open_paths paths"
    by (simp add: open_paths_def)
  have d3: "\<forall>i \<in> set dronable. 0 < i" unfolding sd by auto
  from drone_loop_inv [OF dl [folded tps2_def] d1 d2 tps2_ok d3]
  have dopen: "\<forall>paths \<in> set dps. open_paths paths"
    and tdep: "\<forall>p \<in> set tps. depot_path p"
    and vis: "visits (concat dps) + visits tps
               = visits (concat (replicate dc [[0]])) + visits tps2 + mset dronable"
    and sub: "mset (concat tps2) \<subseteq># mset (concat tps)"
    by blast+
  \<comment> \<open>every customer once\<close>
  have v0: "visits (concat (replicate dc [[0 :: nat]])) = {#}"
    by (rule visits_zero) auto
  have "visits tps1 = filter_mset (\<lambda>i. i \<noteq> 0) (mset (concat (replicate tc [0])) + mset technician_only)"
    unfolding visits_def tms ..
  also have "\<dots> = visits (replicate tc [0]) + filter_mset (\<lambda>i. i \<noteq> 0) (mset technician_only)"
    by (simp add: visits_def)
  also have "visits (replicate tc [0 :: nat]) = {#}" by (rule visits_zero) auto
  also have "filter_mset (\<lambda>i. i \<noteq> 0) (mset technician_only) = mset technician_only"
    unfolding mt by (auto simp: filter_mset_eq_conv)
  finally have v1: "visits tps1 = mset technician_only" by simp
  have v2: "visits tps2 = mset technician_only" unfolding tps2_def visits_map_snoc0 v1 ..
  have part: "mset technician_only + mset dronable = mset [1..<Suc n]"
    unfolding mt md by (simp add: union_commute)
  have v3: "visits (concat dps) + visits tps = mset [1..<Suc n]"
    unfolding vis v0 v2 using part by simp
  have dne: "\<forall>q \<in> set dps. q \<noteq> []" using dopen by (auto simp: open_paths_def)
  have c1: "visits (concat (sol_drone_paths sol)) + visits (sol_technician_paths sol)
              = mset [1..<Suc n]"
    unfolding sol using v3 visits_concat_map_close [OF dne] visits_filter_long [OF tdep]
    by simp
  \<comment> \<open>technician-only customers are on technician paths\<close>
  have c2: "e \<in> set (concat (sol_technician_paths sol))"
    if e: "e \<in> set [1..<Suc n]" "\<not> pd_dronable P ! e" for e
  proof -
    have "e \<in> set technician_only" unfolding st using e by (simp del: upt_Suc)
    then have "e \<in># mset (concat tps1)" unfolding tms by simp
    then have "e \<in> set (concat tps2)" by (auto simp: tps2_def)
    then have "e \<in># mset (concat tps)" using sub by (meson mset_subset_eqD set_mset_mset in_multiset_in_set)
    then obtain p where p: "p \<in> set tps" "e \<in> set p" by auto
    have "2 < length p"
    proof (rule ccontr)
      assume "\<not> 2 < length p"
      then have "p = [0, 0]" using depot_short tdep p(1) by blast
      then have "e = 0" using p(2) by simp
      then show False using e(1) by (simp del: upt_Suc)
    qed
    then show ?thesis using p by (auto simp: sol)
  qed
  \<comment> \<open>the paths begin and end at the depot\<close>
  have c3: "\<forall>paths \<in> set (sol_drone_paths sol). \<forall>path \<in> set paths. depot_path path"
    using dopen open_paths_closed by (fastforce simp: sol)
  have c4: "\<forall>path \<in> set (sol_technician_paths sol). depot_path path"
    using tdep by (simp add: sol)
  from c1 c2 c3 c4 show ?thesis unfolding valid_routes_def n_def by blast
qed

lemma initial_paths_total:
  assumes order: "set_order_ok set_iter P"
    and wf: "d2d_wf P" and ok: "arith_ok fl P"
  shows "\<exists>sol. initial_paths fl set_iter P = Inr sol"
proof -
  define n where "n = pd_customers_count P"
  define tc where "tc = pd_technicians_count P"
  define dc where "dc = pd_drones_count P"
  define technician_only where
    "technician_only = set_iter (filter (\<lambda>e. \<not> pd_dronable P ! e) [1..<Suc n])"
  define dronable where "dronable = set_iter (filter (\<lambda>e. pd_dronable P ! e) [1..<Suc n])"
  have wfs: "0 < dc" "0 < tc" "n < length (pd_dronable P)"
    using wf by (simp_all add: d2d_wf_def Let_def n_def tc_def dc_def)
  have guard: "\<not> (0 < n \<and> length (pd_dronable P) \<le> n)" using wfs(3) by simp
  have dist: "\<forall>i \<le> n. \<forall>j \<le> n. returns (distance fl P i j)"
    using ok by (simp add: arith_ok_def Let_def n_def)
  have "mset technician_only = mset (filter (\<lambda>e. \<not> pd_dronable P ! e) [1..<Suc n])"
    unfolding technician_only_def n_def using order by (simp add: set_order_ok_def Let_def del: upt_Suc)
  then have st: "set technician_only = set (filter (\<lambda>e. \<not> pd_dronable P ! e) [1..<Suc n])"
    by (rule mset_eq_setD)
  have "mset dronable = mset (filter (\<lambda>e. pd_dronable P ! e) [1..<Suc n])"
    unfolding dronable_def n_def using order by (simp add: set_order_ok_def Let_def del: upt_Suc)
  then have sd: "set dronable = set (filter (\<lambda>e. pd_dronable P ! e) [1..<Suc n])"
    by (rule mset_eq_setD)
  have t1: "replicate tc [0 :: nat] \<noteq> []" using wfs(2) by simp
  have t2: "\<forall>p \<in> set (replicate tc [0 :: nat]). p \<noteq> [] \<and> (\<forall>i \<in> set p. i \<le> n)" by simp
  have t3: "\<forall>i \<in> set technician_only. i \<le> n" unfolding st by auto
  from technician_loop_total [OF t1 t2 t3 dist, of 0]
  obtain tps1 where tl: "technician_loop fl P (replicate tc [0]) technician_only 0 = Inr tps1"
    by blast
  have t2': "\<forall>p \<in> set (replicate tc [0 :: nat]). p \<noteq> []" by simp
  from technician_loop_inv [OF tl t2']
  have tlen: "length tps1 = tc"
    and tms: "mset (concat tps1) = mset (concat (replicate tc [0])) + mset technician_only"
    by auto
  define tps2 where "tps2 = map (\<lambda>path. path @ [0 :: nat]) tps1"
  have tps2_ne: "tps2 \<noteq> []" using tlen wfs(2) by (auto simp: tps2_def)
  have nodes1: "\<forall>i \<in> set (concat tps1). i \<le> n"
  proof
    fix i assume "i \<in> set (concat tps1)"
    then have "i \<in># mset (concat (replicate tc [0])) + mset technician_only"
      using tms by (metis set_mset_mset)
    then show "i \<le> n" using t3 by (auto split: if_splits)
  qed
  have tps2_ok: "\<forall>p \<in> set tps2. 2 \<le> length p \<and> (\<forall>i \<in> set p. i \<le> n)"
  proof
    fix p assume "p \<in> set tps2"
    then obtain q where q: "q \<in> set tps1" "p = q @ [0]" by (auto simp: tps2_def)
    then obtain i where i: "i < length tps1" "tps1 ! i = q" by (auto simp: in_set_conv_nth)
    have "q \<noteq> []" using technician_loop_inv [OF tl t2'] i tlen by auto
    then have "2 \<le> length p" using q(2) by (cases q) auto
    moreover have "\<forall>i \<in> set p. i \<le> n" using q nodes1 by auto
    ultimately show "2 \<le> length p \<and> (\<forall>i \<in> set p. i \<le> n)" by simp
  qed
  have d1: "length (replicate dc [[0 :: nat]]) = pd_drones_count P" by (simp add: dc_def)
  have d2: "\<forall>paths \<in> set (replicate dc [[0 :: nat]]).
              paths \<noteq> [] \<and> last paths \<noteq> [] \<and> (\<forall>p \<in> set paths. \<forall>i \<in> set p. i \<le> n)"
    by simp
  have d3: "\<forall>i \<in> set dronable. i \<le> n" unfolding sd by auto
  from drone_loop_total [OF wf ok n_def d1 d2 tps2_ne tps2_ok d3,
      of "replicate dc (fl_zero fl)" "replicate dc (fl_zero fl)" "replicate dc (fl_zero fl)" 0]
  obtain r where dl: "drone_loop fl P (replicate dc [[0]]) (replicate dc (fl_zero fl))
        (replicate dc (fl_zero fl)) (replicate dc (fl_zero fl)) dronable tps2 0 = Inr r"
    by blast
  obtain dps tps where r: "r = (dps, tps)" by (cases r)
  have "initial_paths fl set_iter P =
          Inr \<lparr>sol_drone_paths = map (\<lambda>paths. butlast paths @ [last paths @ [0]]) dps,
               sol_technician_paths = filter (\<lambda>path. 2 < length path) tps\<rparr>"
    unfolding initial_paths_def Let_def
    unfolding n_def [symmetric] tc_def [symmetric] dc_def [symmetric]
    unfolding technician_only_def [symmetric] dronable_def [symmetric]
    using guard tl dl unfolding tps2_def r
    by (simp del: upt_Suc)
  then show ?thesis by blast
qed

lemma initial_returns_paths:
  assumes "initial fl set_iter metrics P = Some (Inr (sol, m))"
  shows "initial_paths fl set_iter P = Inr sol"
  using assms unfolding initial_def D2DPathSolution_init_def Let_def
  by (auto split: sum.splits option.splits)

text \<open>
  C10. The routes that \<open>initial\<close> hands to the constructor are valid whenever lines 297-359
  run through: every customer from 1 to \<open>customers_count\<close> appears exactly once over all
  the paths, every customer that is not dronable is on a technician path, and every drone
  path and every retained technician path begins and ends at the depot 0. This holds in
  whatever order the two sets are iterated and however the float arithmetic rounds and
  compares. The lines run through on class data that cover every customer (\<open>d2d_wf\<close>)
  with an arithmetic that does not raise (\<open>arith_ok\<close>). A solution that \<open>initial\<close> returns
  holds exactly these routes, and \<open>initial\<close> returns it whenever the rest of the constructor
  returns.
\<close>

theorem initial_routes:
  assumes "set_order_ok set_iter P"
  shows "(\<forall>sol. initial_paths fl set_iter P = Inr sol \<longrightarrow> valid_routes P sol) \<and>
         (d2d_wf P \<and> arith_ok fl P \<longrightarrow> (\<exists>sol. initial_paths fl set_iter P = Inr sol)) \<and>
         (\<forall>sol m. initial fl set_iter metrics P = Some (Inr (sol, m)) \<longrightarrow>
                    initial_paths fl set_iter P = Inr sol \<and> valid_routes P sol) \<and>
         (\<forall>sol m. initial_paths fl set_iter P = Inr sol \<and> metrics sol = Some (Inr m) \<longrightarrow>
                    initial fl set_iter metrics P = Some (Inr (sol, m)))"
proof -
  have "initial fl set_iter metrics P = Some (Inr (sol, m))"
    if "initial_paths fl set_iter P = Inr sol" and "metrics sol = Some (Inr m)" for sol m
    using that by (cases sol) (simp add: initial_def D2DPathSolution_init_def Let_def)
  then show ?thesis
    using initial_paths_valid [OF assms] initial_paths_total [OF assms]
      initial_returns_paths [of fl set_iter metrics P]
    by blast
qed

theorem initial_routes_witness:
  "set_order_ok rev
     \<lparr>pd_customers_count = 3, pd_drones_count = 1, pd_technicians_count = 1,
      pd_drones_flight_duration = 5 :: real, pd_x = [0, 1, 2, 1], pd_y = [0, 0, 0, 0],
      pd_demands = [0, 1, 1, 1], pd_dronable = [True, True, False, True], pd_energy_mode = LINEAR,
      pd_drone_linear_config =
        [\<lparr>cfg_altitude = 1, cfg_takeoff_speed = 1, cfg_landing_speed = 1, cfg_cruise_speed = 1,
          cfg_capacity = 1, cfg_battery = 10, cfg_takeoff_power = (\<lambda>w. Inr 1),
          cfg_landing_power = (\<lambda>w. Inr 1), cfg_cruise_power = (\<lambda>w. Inr 1)\<rparr>],
      pd_drone_nonlinear_config = []\<rparr> \<and>
   d2d_wf
     \<lparr>pd_customers_count = 3, pd_drones_count = 1, pd_technicians_count = 1,
      pd_drones_flight_duration = 5 :: real, pd_x = [0, 1, 2, 1], pd_y = [0, 0, 0, 0],
      pd_demands = [0, 1, 1, 1], pd_dronable = [True, True, False, True], pd_energy_mode = LINEAR,
      pd_drone_linear_config =
        [\<lparr>cfg_altitude = 1, cfg_takeoff_speed = 1, cfg_landing_speed = 1, cfg_cruise_speed = 1,
          cfg_capacity = 1, cfg_battery = 10, cfg_takeoff_power = (\<lambda>w. Inr 1),
          cfg_landing_power = (\<lambda>w. Inr 1), cfg_cruise_power = (\<lambda>w. Inr 1)\<rparr>],
      pd_drone_nonlinear_config = []\<rparr> \<and>
   arith_ok
     \<lparr>fl_zero = 0 :: real,
      fl_add = (\<lambda>a b. Inr (a + b)), fl_sub = (\<lambda>a b. Inr (a - b)),
      fl_mul = (\<lambda>a b. Inr (a * b)),
      fl_div = (\<lambda>a b. if b = 0 then Inl ZeroDivisionError else Inr (a / b)),
      fl_square = (\<lambda>a. Inr (a * a)),
      fl_sqrt = (\<lambda>a. if a < 0 then Inl (ValueError ''math domain error'') else Inr (sqrt a)),
      fl_lt = (\<lambda>a b. a < b), fl_le = (\<lambda>a b. a \<le> b)\<rparr>
     \<lparr>pd_customers_count = 3, pd_drones_count = 1, pd_technicians_count = 1,
      pd_drones_flight_duration = 5 :: real, pd_x = [0, 1, 2, 1], pd_y = [0, 0, 0, 0],
      pd_demands = [0, 1, 1, 1], pd_dronable = [True, True, False, True], pd_energy_mode = LINEAR,
      pd_drone_linear_config =
        [\<lparr>cfg_altitude = 1, cfg_takeoff_speed = 1, cfg_landing_speed = 1, cfg_cruise_speed = 1,
          cfg_capacity = 1, cfg_battery = 10, cfg_takeoff_power = (\<lambda>w. Inr 1),
          cfg_landing_power = (\<lambda>w. Inr 1), cfg_cruise_power = (\<lambda>w. Inr 1)\<rparr>],
      pd_drone_nonlinear_config = []\<rparr> \<and>
   initial_paths
     \<lparr>fl_zero = 0 :: real,
      fl_add = (\<lambda>a b. Inr (a + b)), fl_sub = (\<lambda>a b. Inr (a - b)),
      fl_mul = (\<lambda>a b. Inr (a * b)),
      fl_div = (\<lambda>a b. if b = 0 then Inl ZeroDivisionError else Inr (a / b)),
      fl_square = (\<lambda>a. Inr (a * a)),
      fl_sqrt = (\<lambda>a. if a < 0 then Inl (ValueError ''math domain error'') else Inr (sqrt a)),
      fl_lt = (\<lambda>a b. a < b), fl_le = (\<lambda>a b. a \<le> b)\<rparr>
     rev
     \<lparr>pd_customers_count = 3, pd_drones_count = 1, pd_technicians_count = 1,
      pd_drones_flight_duration = 5 :: real, pd_x = [0, 1, 2, 1], pd_y = [0, 0, 0, 0],
      pd_demands = [0, 1, 1, 1], pd_dronable = [True, True, False, True], pd_energy_mode = LINEAR,
      pd_drone_linear_config =
        [\<lparr>cfg_altitude = 1, cfg_takeoff_speed = 1, cfg_landing_speed = 1, cfg_cruise_speed = 1,
          cfg_capacity = 1, cfg_battery = 10, cfg_takeoff_power = (\<lambda>w. Inr 1),
          cfg_landing_power = (\<lambda>w. Inr 1), cfg_cruise_power = (\<lambda>w. Inr 1)\<rparr>],
      pd_drone_nonlinear_config = []\<rparr>
   = Inr \<lparr>sol_drone_paths = [[[0, 3, 0], [0, 0]]], sol_technician_paths = [[0, 2, 1, 0]]\<rparr> \<and>
   valid_routes
     \<lparr>pd_customers_count = 3, pd_drones_count = 1, pd_technicians_count = 1,
      pd_drones_flight_duration = 5 :: real, pd_x = [0, 1, 2, 1], pd_y = [0, 0, 0, 0],
      pd_demands = [0, 1, 1, 1], pd_dronable = [True, True, False, True], pd_energy_mode = LINEAR,
      pd_drone_linear_config =
        [\<lparr>cfg_altitude = 1, cfg_takeoff_speed = 1, cfg_landing_speed = 1, cfg_cruise_speed = 1,
          cfg_capacity = 1, cfg_battery = 10, cfg_takeoff_power = (\<lambda>w. Inr 1),
          cfg_landing_power = (\<lambda>w. Inr 1), cfg_cruise_power = (\<lambda>w. Inr 1)\<rparr>],
      pd_drone_nonlinear_config = []\<rparr>
     \<lparr>sol_drone_paths = [[[0, 3, 0], [0, 0]]], sol_technician_paths = [[0, 2, 1, 0]]\<rparr> \<and>
   initial
     \<lparr>fl_zero = 0 :: real,
      fl_add = (\<lambda>a b. Inr (a + b)), fl_sub = (\<lambda>a b. Inr (a - b)),
      fl_mul = (\<lambda>a b. Inr (a * b)),
      fl_div = (\<lambda>a b. if b = 0 then Inl ZeroDivisionError else Inr (a / b)),
      fl_square = (\<lambda>a. Inr (a * a)),
      fl_sqrt = (\<lambda>a. if a < 0 then Inl (ValueError ''math domain error'') else Inr (sqrt a)),
      fl_lt = (\<lambda>a b. a < b), fl_le = (\<lambda>a b. a \<le> b)\<rparr>
     rev (\<lambda>self. Some (Inr ()))
     \<lparr>pd_customers_count = 3, pd_drones_count = 1, pd_technicians_count = 1,
      pd_drones_flight_duration = 5 :: real, pd_x = [0, 1, 2, 1], pd_y = [0, 0, 0, 0],
      pd_demands = [0, 1, 1, 1], pd_dronable = [True, True, False, True], pd_energy_mode = LINEAR,
      pd_drone_linear_config =
        [\<lparr>cfg_altitude = 1, cfg_takeoff_speed = 1, cfg_landing_speed = 1, cfg_cruise_speed = 1,
          cfg_capacity = 1, cfg_battery = 10, cfg_takeoff_power = (\<lambda>w. Inr 1),
          cfg_landing_power = (\<lambda>w. Inr 1), cfg_cruise_power = (\<lambda>w. Inr 1)\<rparr>],
      pd_drone_nonlinear_config = []\<rparr>
   = Some (Inr (\<lparr>sol_drone_paths = [[[0, 3, 0], [0, 0]]], sol_technician_paths = [[0, 2, 1, 0]]\<rparr>, ()))"
proof -
  let ?fl = "\<lparr>fl_zero = 0 :: real,
      fl_add = (\<lambda>a b. Inr (a + b)), fl_sub = (\<lambda>a b. Inr (a - b)),
      fl_mul = (\<lambda>a b. Inr (a * b)),
      fl_div = (\<lambda>a b. if b = 0 then Inl ZeroDivisionError else Inr (a / b)),
      fl_square = (\<lambda>a. Inr (a * a)),
      fl_sqrt = (\<lambda>a. if a < 0 then Inl (ValueError ''math domain error'') else Inr (sqrt a)),
      fl_lt = (\<lambda>a b. a < b), fl_le = (\<lambda>a b. a \<le> b)\<rparr>"
  let ?P = "\<lparr>pd_customers_count = 3, pd_drones_count = 1, pd_technicians_count = 1,
      pd_drones_flight_duration = 5 :: real, pd_x = [0, 1, 2, 1], pd_y = [0, 0, 0, 0],
      pd_demands = [0, 1, 1, 1], pd_dronable = [True, True, False, True], pd_energy_mode = LINEAR,
      pd_drone_linear_config =
        [\<lparr>cfg_altitude = 1, cfg_takeoff_speed = 1, cfg_landing_speed = 1, cfg_cruise_speed = 1,
          cfg_capacity = 1, cfg_battery = 10, cfg_takeoff_power = (\<lambda>w. Inr 1),
          cfg_landing_power = (\<lambda>w. Inr 1), cfg_cruise_power = (\<lambda>w. Inr 1)\<rparr>],
      pd_drone_nonlinear_config = []\<rparr>"
  let ?sol = "\<lparr>sol_drone_paths = [[[0, 3, 0], [0, 0]]], sol_technician_paths = [[0, 2, 1, 0]]\<rparr>"
  have order: "set_order_ok rev ?P"
    by (simp add: set_order_ok_def Let_def upt_rec)
  have wf: "d2d_wf ?P"
    by (simp add: d2d_wf_def)
  have dist: "returns (distance ?fl ?P i j)" if "i \<le> 3" "j \<le> 3" for i j
    using that
    by (simp add: distance_def err_bind_def py_index_def returns_def not_sum_squares_lt_zero)
  have ok: "arith_ok ?fl ?P"
    unfolding arith_ok_def Let_def using dist by (simp add: returns_def)
  have run: "initial_paths ?fl rev ?P = Inr ?sol"
    by (simp add: initial_paths_def Let_def technician_loop.simps drone_loop.simps
        py_min_index_def distance_def config_of_def py_index_def flight_costs_def drone_fits_def
        technician_key_def upt_rec err_bind_def)
  note routes = initial_routes [OF order, of ?fl "(\<lambda>self. Some (Inr ()))"]
  have valid: "valid_routes ?P ?sol"
    by (rule routes [THEN conjunct1, rule_format, OF run])
  have init: "initial ?fl rev (\<lambda>self. Some (Inr ())) ?P = Some (Inr (?sol, ()))"
    by (rule routes [THEN conjunct2, THEN conjunct2, THEN conjunct2, rule_format,
          OF conjI [OF run refl]])
  from order wf ok run valid init show ?thesis
    by (intro conjI)
qed

end
